theory Spec2Isabelle
  imports Main "HOL-Library.List_Lexorder" "HOL-Library.Char_ord"
begin

section \<open>Python string primitives used by handler.py\<close>

text \<open>
  A Python \<open>str\<close> is modelled as a \<open>string\<close>; a \<open>char\<close> stands for a code point below 256.
  On that range \<open>str.strip()\<close>, \<open>str.isspace()\<close> and the regular expression class
  \<open>\s\<close> agree on the twelve characters below, and \<open>\d\<close> is the ten ASCII digits.
\<close>

definition is_space :: "char \<Rightarrow> bool" where
  "is_space c \<longleftrightarrow>
     c = CHR 0x09 \<or> c = CHR 0x0A \<or> c = CHR 0x0B \<or> c = CHR 0x0C \<or> c = CHR 0x0D \<or>
     c = CHR 0x1C \<or> c = CHR 0x1D \<or> c = CHR 0x1E \<or> c = CHR 0x1F \<or> c = CHR 0x20 \<or>
     c = CHR 0x85 \<or> c = CHR 0xA0"

definition is_digit :: "char \<Rightarrow> bool" where
  "is_digit c \<longleftrightarrow>
     c = CHR ''0'' \<or> c = CHR ''1'' \<or> c = CHR ''2'' \<or> c = CHR ''3'' \<or> c = CHR ''4'' \<or>
     c = CHR ''5'' \<or> c = CHR ''6'' \<or> c = CHR ''7'' \<or> c = CHR ''8'' \<or> c = CHR ''9''"

text \<open>\<open>s.strip()\<close>: whitespace removed at both ends.\<close>

definition strip :: "string \<Rightarrow> string" where
  "strip s = rev (dropWhile is_space (rev (dropWhile is_space s)))"

text \<open>\<open>re.sub(r"\s+", " ", s)\<close>: every maximal run of whitespace becomes one space.\<close>

function sub_ws :: "string \<Rightarrow> string" where
  "sub_ws [] = []"
| "sub_ws (c # cs) =
     (if is_space c then CHR 0x20 # sub_ws (dropWhile is_space cs) else c # sub_ws cs)"
  by pat_completeness auto
termination
  by (relation "measure length") (auto simp: less_Suc_eq_le length_dropWhile_le)

text \<open>\<open>_clean_text\<close>; on a \<open>str\<close> argument \<open>s or ""\<close> is \<open>s\<close>.\<close>

definition clean_text :: "string \<Rightarrow> string" where
  "clean_text s = sub_ws (strip s)"


text \<open>\<open>s.startswith(p)\<close> and the substring test \<open>sub in s\<close>.\<close>

fun starts_with :: "string \<Rightarrow> string \<Rightarrow> bool" where
  "starts_with [] s = True"
| "starts_with (p # ps) [] = False"
| "starts_with (p # ps) (c # cs) = (p = c \<and> starts_with ps cs)"

fun py_in :: "string \<Rightarrow> string \<Rightarrow> bool" where
  "py_in sub [] = (sub = [])"
| "py_in sub (c # cs) = (starts_with sub (c # cs) \<or> py_in sub cs)"

text \<open>\<open>s.split("\n")\<close>: always at least one piece.\<close>

fun split_nl :: "string \<Rightarrow> string list" where
  "split_nl [] = [[]]"
| "split_nl (c # cs) =
     (if c = CHR 0x0A then [] # split_nl cs
      else (case split_nl cs of l # ls \<Rightarrow> (c # l) # ls | [] \<Rightarrow> [[c]]))"

text \<open>\<open>" ".join(parts)\<close>.\<close>

fun join_sp :: "string list \<Rightarrow> string" where
  "join_sp [] = []"
| "join_sp [x] = x"
| "join_sp (x # y # ys) = x @ CHR 0x20 # join_sp (y # ys)"

section \<open>The caption parser \<open>_parse_vtt_to_text\<close>\<close>

text \<open>\<open>vtt.replace("\r\n", "\n")\<close>, scanning left to right without overlap.\<close>

fun replace_crlf :: "string \<Rightarrow> string" where
  "replace_crlf (a # b # cs) =
     (if a = CHR 0x0D \<and> b = CHR 0x0A then CHR 0x0A # replace_crlf cs
      else a # replace_crlf (b # cs))"
| "replace_crlf cs = cs"

text \<open>
  The lazy tail \<open>[\s\S]*?\n\n\<close> of both block patterns: what follows the first two
  consecutive line feeds, or \<open>None\<close> when the text has no such pair (the pattern then fails).
\<close>

fun after_blank :: "string \<Rightarrow> string option" where
  "after_blank (a # b # cs) =
     (if a = CHR 0x0A \<and> b = CHR 0x0A then Some cs else after_blank (b # cs))"
| "after_blank cs = None"

text \<open>
  \<open>re.sub(r"^WEBVTT[\s\S]*?\n\n", "", t)\<close>: without \<open>re.MULTILINE\<close> the anchor holds at
  offset 0 only, so at most one match is removed.
\<close>

definition drop_header :: "string \<Rightarrow> string" where
  "drop_header t =
     (if starts_with ''WEBVTT'' t
      then (case after_blank (drop 6 t) of Some rest \<Rightarrow> rest | None \<Rightarrow> t)
      else t)"

text \<open>
  \<open>re.sub(r"^NOTE[\s\S]*?\n\n", "", t, flags=re.MULTILINE)\<close>: the scan goes left to right;
  the flag \<open>bol\<close> says that the current offset is the start of the text or follows a line
  feed. A match is removed and the scan resumes right after it (there the previous
  character is a line feed); where the pattern fails the character is kept.
\<close>

definition note_match :: "bool \<Rightarrow> string \<Rightarrow> string option" where
  "note_match bol s = (if bol \<and> starts_with ''NOTE'' s then after_blank (drop 4 s) else None)"

lemma after_blank_shorter: "after_blank s = Some r \<Longrightarrow> length r < length s"
  by (induction s arbitrary: r rule: after_blank.induct) (auto split: if_splits)

lemma note_match_shorter: "note_match bol s = Some r \<Longrightarrow> length r < length s"
  by (auto simp: note_match_def dest!: after_blank_shorter split: if_splits)

function drop_notes :: "bool \<Rightarrow> string \<Rightarrow> string" where
  "drop_notes bol [] = []"
| "drop_notes bol (c # cs) =
     (case note_match bol (c # cs) of
        Some rest \<Rightarrow> drop_notes True rest
      | None \<Rightarrow> c # drop_notes (c = CHR 0x0A) cs)"
  by pat_completeness auto
termination
  by (relation "measure (\<lambda>(bol, s). length s)") (auto dest: note_match_shorter)

text \<open>
  \<open>re.sub(r"<[^>]+>", "", line)\<close>: a tag is \<open><\<close>, at least one character other than
  \<open>>\<close>, and the next \<open>>\<close>.
\<close>

function drop_tags :: "string \<Rightarrow> string" where
  "drop_tags [] = []"
| "drop_tags (c # cs) =
     (if c = CHR ''<'' \<and> takeWhile (\<lambda>x. x \<noteq> CHR ''>'') cs \<noteq> []
         \<and> dropWhile (\<lambda>x. x \<noteq> CHR ''>'') cs \<noteq> []
      then drop_tags (tl (dropWhile (\<lambda>x. x \<noteq> CHR ''>'') cs))
      else c # drop_tags cs)"
  by pat_completeness auto
termination
proof (relation "measure length")
  fix c :: char and cs :: string
  have "length (tl (dropWhile (\<lambda>x. x \<noteq> CHR ''>'') cs)) \<le> length cs"
    using length_dropWhile_le [of "\<lambda>x. x \<noteq> CHR ''>''" cs] by simp
  then show "(tl (dropWhile (\<lambda>x. x \<noteq> CHR ''>'') cs), c # cs) \<in> measure length"
    by simp
qed simp_all

text \<open>One iteration of the loop over the lines: the text appended to \<open>out_lines\<close>, if any.\<close>

definition vtt_line :: "string \<Rightarrow> string option" where
  "vtt_line l =
     (let line = strip l in
      if line = [] then None
      else if py_in ''-->'' line then None
      else if line \<noteq> [] \<and> list_all is_digit line then None
      else (let line' = drop_tags line in if line' \<noteq> [] then Some line' else None))"

fun out_lines :: "string list \<Rightarrow> string list" where
  "out_lines [] = []"
| "out_lines (l # ls) =
     (case vtt_line l of None \<Rightarrow> out_lines ls | Some x \<Rightarrow> x # out_lines ls)"

definition parse_vtt_to_text :: "string \<Rightarrow> string" where
  "parse_vtt_to_text vtt =
     (let t = replace_crlf vtt;
          t = drop_header t;
          t = drop_notes True t
      in clean_text (join_sp (out_lines (split_nl t))))"


section \<open>The environment: subprocesses, the working directory, the speech recogniser\<close>

text \<open>
  Exceptions are values. \<open>subprocess.run(..., check=True, timeout=...)\<close> raises
  \<open>CalledProcessError\<close> on a non-zero exit status, \<open>TimeoutExpired\<close> on expiry and an
  \<open>OSError\<close> when the program cannot be started; the recogniser may raise anything.
\<close>

datatype fault =
    CalledProcessError nat
  | TimeoutExpired
  | OSError
  | RuntimeError string
  | EngineError string

datatype proc_exit = Exited nat | TimedOut | NotStarted

text \<open>
  The working directory: its entries as (name, content), in the order in which the
  directory is scanned. The calls made to the outside are recorded in a trace.
\<close>

type_synonym files = "(string \<times> string) list"

datatype call =
    Subprocess "string list" string nat
  | Whisper string

text \<open>
  What the program cannot decide: the name of the temporary directory; what a run of the
  external program, given its command line, working directory and timeout, makes of the
  entries of the directory and how it ends; and what the recogniser yields for an audio
  file, the texts of its segments or the exception it raised.
\<close>

record world =
  tmpdir :: string
  subprocess :: "string list \<Rightarrow> string \<Rightarrow> nat \<Rightarrow> files \<Rightarrow> proc_exit \<times> files"
  whisper :: "string \<Rightarrow> files \<Rightarrow> fault + string list"

record state =
  files :: files
  trace :: "call list"

text \<open>\<open>os.path.join(a, b)\<close> of \<open>posixpath\<close>, for two components.\<close>

definition path_join :: "string \<Rightarrow> string \<Rightarrow> string" where
  "path_join a b =
     (if starts_with ''/'' b then b
      else if a = [] \<or> last a = CHR ''/'' then a @ b
      else a @ ''/'' @ b)"

text \<open>
  \<open>glob.glob(os.path.join(dir, pre + "*" + suf))\<close> for a directory name without wildcard
  characters: the entries whose name is \<open>pre\<close>, anything, \<open>suf\<close>, in scan order. None of
  the three patterns of the program starts with a dot, so names that do are left out.
\<close>

definition fnmatch_star :: "string \<Rightarrow> string \<Rightarrow> string \<Rightarrow> bool" where
  "fnmatch_star pre suf name \<longleftrightarrow>
     length pre + length suf \<le> length name
     \<and> starts_with pre name \<and> starts_with (rev suf) (rev name)"

definition glob :: "string \<Rightarrow> string \<Rightarrow> string \<Rightarrow> files \<Rightarrow> string list" where
  "glob dir pre suf fs =
     map (path_join dir)
       (filter (\<lambda>name. \<not> starts_with ''.'' name \<and> fnmatch_star pre suf name) (map fst fs))"

text \<open>
  \<open>open(path, "r", encoding="utf-8", errors="ignore").read()\<close>. A file opened in text
  mode is read with universal newlines: a carriage return followed by a line feed, and a
  carriage return alone, each come out as one line feed.
\<close>

fun universal_newlines :: "string \<Rightarrow> string" where
  "universal_newlines (a # b # cs) =
     (if a = CHR 0x0D
      then (if b = CHR 0x0A then CHR 0x0A # universal_newlines cs
            else CHR 0x0A # universal_newlines (b # cs))
      else a # universal_newlines (b # cs))"
| "universal_newlines [a] = (if a = CHR 0x0D then [CHR 0x0A] else [a])"
| "universal_newlines [] = []"

definition read_text :: "string \<Rightarrow> string \<Rightarrow> files \<Rightarrow> fault + string" where
  "read_text dir path fs =
     (case map_of (map (\<lambda>(name, content). (path_join dir name, content)) fs) path of
        None \<Rightarrow> Inl OSError
      | Some content \<Rightarrow> Inr (universal_newlines content))"

text \<open>\<open>_run\<close>.\<close>

definition run :: "world \<Rightarrow> string list \<Rightarrow> string \<Rightarrow> nat \<Rightarrow> state \<Rightarrow> (fault + unit) \<times> state" where
  "run w cmd cwd timeout st =
     (let (ex, fs) = subprocess w cmd cwd timeout (files st);
          st' = \<lparr>files = fs, trace = trace st @ [Subprocess cmd cwd timeout]\<rparr>
      in (case ex of
            Exited n \<Rightarrow> if n = 0 then Inr () else Inl (CalledProcessError n)
          | TimedOut \<Rightarrow> Inl TimeoutExpired
          | NotStarted \<Rightarrow> Inl OSError,
          st'))"

section \<open>The fetchers\<close>

definition subs_cmd :: "string \<Rightarrow> string \<Rightarrow> string \<Rightarrow> string \<Rightarrow> string list" where
  "subs_cmd kind lang base_out youtube_url =
     [''yt-dlp'', ''--no-playlist'', ''--skip-download'', kind, ''--sub-lang'', lang,
      ''--sub-format'', ''vtt'', ''-o'', base_out, youtube_url]"

text \<open>
  \<open>_download_subtitles\<close>: both attempts run, whatever the first one raised
  (\<open>except Exception: pass\<close>); then the two scans and the choice among the candidates.
\<close>

definition pick_vtt :: "string \<Rightarrow> string list \<Rightarrow> string option" where
  "pick_vtt lang vtts =
     (if vtts = [] then None
      else (case find (\<lambda>p. py_in (''.'' @ lang @ ''.'') p) vtts of
              Some p \<Rightarrow> Some p
            | None \<Rightarrow> Some (hd vtts)))"

definition find_vtts :: "string \<Rightarrow> files \<Rightarrow> string list" where
  "find_vtts workdir fs =
     (let vtts = glob workdir ''subs.'' ''.vtt'' fs
      in if vtts = [] then glob workdir [] ''.vtt'' fs else vtts)"

definition download_subtitles ::
  "world \<Rightarrow> string \<Rightarrow> string \<Rightarrow> string \<Rightarrow> state \<Rightarrow> string option \<times> state" where
  "download_subtitles w youtube_url workdir lang st =
     (let base_out = path_join workdir ''subs.%(language)s.%(ext)s'';
          (r1, st1) = run w (subs_cmd ''--write-subs'' lang base_out youtube_url) workdir 90 st;
          (r2, st2) = run w (subs_cmd ''--write-auto-subs'' lang base_out youtube_url) workdir 90 st1
      in (pick_vtt lang (find_vtts workdir (files st2)), st2))"

definition audio_cmd :: "string \<Rightarrow> string \<Rightarrow> string list" where
  "audio_cmd out_tmpl youtube_url =
     [''yt-dlp'', ''--no-playlist'', ''-f'', ''bestaudio'', ''-o'', out_tmpl, youtube_url]"

definition download_audio ::
  "world \<Rightarrow> string \<Rightarrow> string \<Rightarrow> state \<Rightarrow> (fault + string) \<times> state" where
  "download_audio w youtube_url workdir st =
     (let out_tmpl = path_join workdir ''audio.%(ext)s'';
          (r, st1) = run w (audio_cmd out_tmpl youtube_url) workdir 180 st
      in case r of
           Inl e \<Rightarrow> (Inl e, st1)
         | Inr u \<Rightarrow>
             (let candidates = glob workdir ''audio.'' [] (files st1)
              in if candidates = []
                 then (Inl (RuntimeError ''Audio download produced no file''), st1)
                 else (Inr (hd candidates), st1)))"

text \<open>
  \<open>_transcribe_with_faster_whisper\<close>: the segments with a non-empty text, joined and
  cleaned. Loading the model, the call and the lazy iteration are one step of the
  environment, which yields the texts of all segments or the exception raised on the way.
\<close>

definition transcribe_with_faster_whisper ::
  "world \<Rightarrow> string \<Rightarrow> state \<Rightarrow> (fault + string) \<times> state" where
  "transcribe_with_faster_whisper w audio_path st =
     (let st1 = st\<lparr>trace := trace st @ [Whisper audio_path]\<rparr>
      in case whisper w audio_path (files st) of
           Inl e \<Rightarrow> (Inl e, st1)
         | Inr segments \<Rightarrow>
             (Inr (clean_text (join_sp (filter (\<lambda>text. text \<noteq> []) segments))), st1))"

section \<open>The handler\<close>

text \<open>
  The event is \<open>None\<close> or a dictionary whose entry \<open>"input"\<close>, when present, is a
  dictionary from strings to strings. A response is a dictionary too, kept in insertion
  order.
\<close>

type_synonym event = "(string \<times> (string \<times> string) list) list option"
type_synonym response = "(string \<times> string) list"

text \<open>\<open>inp = (event or {}).get("input") or {}\<close>.\<close>

definition event_input :: "event \<Rightarrow> (string \<times> string) list" where
  "event_input event =
     (case event of
        None \<Rightarrow> []
      | Some d \<Rightarrow> (case map_of d ''input'' of None \<Rightarrow> [] | Some inp \<Rightarrow> inp))"

text \<open>\<open>str(inp.get("youtubeUrl") or "").strip()\<close>.\<close>

definition event_url :: "event \<Rightarrow> string" where
  "event_url event =
     strip (case map_of (event_input event) ''youtubeUrl'' of None \<Rightarrow> [] | Some u \<Rightarrow> u)"

text \<open>\<open>str(inp.get("lang") or "en").strip() or "en"\<close>.\<close>

definition event_lang :: "event \<Rightarrow> string" where
  "event_lang event =
     (let l = strip (case map_of (event_input event) ''lang'' of
                       None \<Rightarrow> ''en''
                     | Some l \<Rightarrow> if l = [] then ''en'' else l)
      in if l = [] then ''en'' else l)"

text \<open>
  Lines 161 to 166: the caption tier. \<open>Inr text\<close> is the text recovered from captions,
  empty when no caption file was found (\<open>if vtt_path:\<close> fails on \<open>None\<close> and on the empty
  path) or when the parser returned nothing.
\<close>

definition try_subtitles ::
  "world \<Rightarrow> string \<Rightarrow> string \<Rightarrow> string \<Rightarrow> state \<Rightarrow> (fault + string) \<times> state" where
  "try_subtitles w youtube_url workdir lang st =
     (let (vtt_path, st1) = download_subtitles w youtube_url workdir lang st
      in case vtt_path of
           None \<Rightarrow> (Inr [], st1)
         | Some p \<Rightarrow>
             if p = [] then (Inr [], st1)
             else (case read_text workdir p (files st1) of
                     Inl e \<Rightarrow> (Inl e, st1)
                   | Inr doc \<Rightarrow> (Inr (parse_vtt_to_text doc), st1)))"

text \<open>Lines 168 to 173: the fallback tier.\<close>

definition asr_fallback ::
  "world \<Rightarrow> string \<Rightarrow> string \<Rightarrow> string \<Rightarrow> state \<Rightarrow> (fault + response) \<times> state" where
  "asr_fallback w youtube_url workdir lang st =
     (case download_audio w youtube_url workdir st of
        (Inl e, st1) \<Rightarrow> (Inl e, st1)
      | (Inr audio_path, st1) \<Rightarrow>
          (case transcribe_with_faster_whisper w audio_path st1 of
             (Inl e, st2) \<Rightarrow> (Inl e, st2)
           | (Inr text, st2) \<Rightarrow>
               if text = [] then (Inr [(''error'', ''ASR returned empty transcript'')], st2)
               else (Inr [(''transcript'', text), (''method'', ''asr''), (''lang'', lang)], st2)))"

text \<open>
  \<open>handler\<close>: the value returned or the exception that leaves it, with the calls made.
  The temporary directory starts empty.
\<close>

definition handler :: "world \<Rightarrow> event \<Rightarrow> (fault + response) \<times> call list" where
  "handler w event =
     (let youtube_url = event_url event;
          lang = event_lang event
      in if youtube_url = [] then (Inr [(''error'', ''Missing input.youtubeUrl'')], [])
         else
           (let workdir = tmpdir w;
                st0 = \<lparr>files = [], trace = []\<rparr>
            in case try_subtitles w youtube_url workdir lang st0 of
                 (Inl e, st1) \<Rightarrow> (Inl e, trace st1)
               | (Inr text, st1) \<Rightarrow>
                   if text \<noteq> []
                   then (Inr [(''transcript'', text), (''method'', ''subtitles''), (''lang'', lang)],
                         trace st1)
                   else (case asr_fallback w youtube_url workdir lang st1 of
                           (r, st2) \<Rightarrow> (r, trace st2))))"

text \<open>What a response is, and what a trace shows.\<close>

definition is_transcript :: "response \<Rightarrow> bool" where
  "is_transcript r \<longleftrightarrow> map fst r = [''transcript'', ''method'', ''lang'']"

definition is_error :: "response \<Rightarrow> bool" where
  "is_error r \<longleftrightarrow> map fst r = [''error'']"

fun is_whisper :: "call \<Rightarrow> bool" where
  "is_whisper (Whisper p) = True"
| "is_whisper (Subprocess cmd cwd t) = False"

definition asr_invoked :: "call list \<Rightarrow> bool" where
  "asr_invoked tr \<longleftrightarrow> list_ex is_whisper tr"


section \<open>Documents and environments used to state the properties\<close>

text \<open>\<open>"\n".join(lines)\<close>: a document given by its lines.\<close>

fun join_nl :: "string list \<Rightarrow> string" where
  "join_nl [] = []"
| "join_nl [x] = x"
| "join_nl (x # y # ys) = x @ CHR 0x0A # join_nl (y # ys)"

text \<open>The three calls of the external program, as they show in the trace.\<close>

definition subs_call :: "string \<Rightarrow> string \<Rightarrow> string \<Rightarrow> string \<Rightarrow> call" where
  "subs_call kind youtube_url workdir lang =
     Subprocess (subs_cmd kind lang (path_join workdir ''subs.%(language)s.%(ext)s'') youtube_url)
       workdir 90"

definition audio_call :: "string \<Rightarrow> string \<Rightarrow> call" where
  "audio_call youtube_url workdir =
     Subprocess (audio_cmd (path_join workdir ''audio.%(ext)s'') youtube_url) workdir 180"

text \<open>The working directory after both caption attempts, and after the audio attempt.\<close>

definition files_after_subs :: "world \<Rightarrow> string \<Rightarrow> string \<Rightarrow> string \<Rightarrow> files \<Rightarrow> files" where
  "files_after_subs w youtube_url workdir lang fs =
     snd (subprocess w
            (subs_cmd ''--write-auto-subs'' lang
               (path_join workdir ''subs.%(language)s.%(ext)s'') youtube_url)
            workdir 90
            (snd (subprocess w
                    (subs_cmd ''--write-subs'' lang
                       (path_join workdir ''subs.%(language)s.%(ext)s'') youtube_url)
                    workdir 90 fs)))"

definition audio_step :: "world \<Rightarrow> string \<Rightarrow> string \<Rightarrow> files \<Rightarrow> proc_exit \<times> files" where
  "audio_step w youtube_url workdir fs =
     subprocess w (audio_cmd (path_join workdir ''audio.%(ext)s'') youtube_url) workdir 180 fs"

text \<open>
  A scripted environment: the attempt at manual captions fails with status 1 and writes
  nothing, the attempt at automatic captions exits with status 0 and adds the entries
  \<open>subs\<close>, the audio download ends as \<open>audio_exit\<close> and adds the entries \<open>audio\<close>, and
  the recogniser answers \<open>asr\<close>.
\<close>

definition scripted :: "files \<Rightarrow> proc_exit \<Rightarrow> files \<Rightarrow> fault + string list \<Rightarrow> world" where
  "scripted subs audio_exit audio asr =
     \<lparr>tmpdir = ''/tmp/tmpk3x9'',
      subprocess = (\<lambda>cmd cwd timeout fs.
         if ''--write-subs'' \<in> set cmd then (Exited 1, fs)
         else if ''--write-auto-subs'' \<in> set cmd then (Exited 0, fs @ subs)
         else (audio_exit, fs @ audio)),
      whisper = (\<lambda>audio_path fs. asr)\<rparr>"

definition request :: "string \<Rightarrow> string \<Rightarrow> event" where
  "request url hint = Some [(''input'', [(''youtubeUrl'', url), (''lang'', hint)])]"

section \<open>The text normalizer\<close>

lemma is_space_blank [simp]: "is_space (CHR 0x20)"
  by (simp add: is_space_def)

lemma lstrip_id: "s = [] \<or> \<not> is_space (hd s) \<Longrightarrow> dropWhile is_space s = s"
  by (cases s) auto

lemma rstrip_id: "s = [] \<or> \<not> is_space (last s) \<Longrightarrow> rev (dropWhile is_space (rev s)) = s"
  by (cases s rule: rev_cases) auto

lemma last_dropWhile: "dropWhile P xs \<noteq> [] \<Longrightarrow> last (dropWhile P xs) = last xs"
  by (induction xs) (auto split: if_splits)

lemma dropWhile_last_nonempty: "xs \<noteq> [] \<Longrightarrow> \<not> P (last xs) \<Longrightarrow> dropWhile P xs \<noteq> []"
  by (induction xs) (auto split: if_splits)

lemma strip_fixed: "s = [] \<or> (\<not> is_space (hd s) \<and> \<not> is_space (last s)) \<Longrightarrow> strip s = s"
  unfolding strip_def using lstrip_id [of s] rstrip_id [of s] by auto

lemma strip_ends:
  "strip s = [] \<or> (\<not> is_space (hd (strip s)) \<and> \<not> is_space (last (strip s)))"
proof (cases "strip s = []")
  case True
  then show ?thesis by simp
next
  case False
  let ?a = "dropWhile is_space s"
  let ?b = "dropWhile is_space (rev ?a)"
  have b: "?b \<noteq> []" using False by (simp add: strip_def)
  then have hb: "\<not> is_space (hd ?b)" by (rule hd_dropWhile)
  have a: "?a \<noteq> []"
  proof
    assume e: "?a = []"
    have "?b = []" unfolding e by simp
    with b show False by blast
  qed
  then have ha: "\<not> is_space (hd ?a)" by (rule hd_dropWhile)
  have "last ?b = last (rev ?a)" using b by (rule last_dropWhile)
  also have "\<dots> = hd ?a" using a by (simp add: last_rev)
  finally have lb: "\<not> is_space (last ?b)" using ha by simp
  have "hd (strip s) = last ?b" "last (strip s) = hd ?b"
    using b by (simp_all add: strip_def hd_rev last_rev)
  with hb lb show ?thesis by simp
qed

lemma strip_empty_iff: "strip s = [] \<longleftrightarrow> (\<forall>c\<in>set s. is_space c)"
proof
  assume "strip s = []"
  then have every: "\<forall>x\<in>set (dropWhile is_space s). is_space x"
    by (simp add: strip_def)
  have "dropWhile is_space s = []"
  proof (rule ccontr)
    assume ne: "dropWhile is_space s \<noteq> []"
    then have "\<not> is_space (hd (dropWhile is_space s))" by (rule hd_dropWhile)
    moreover have "hd (dropWhile is_space s) \<in> set (dropWhile is_space s)"
      using ne by (rule hd_in_set)
    ultimately show False using every by blast
  qed
  then show "\<forall>c\<in>set s. is_space c" by simp
next
  assume "\<forall>c\<in>set s. is_space c"
  then have e: "dropWhile is_space s = []" by simp
  show "strip s = []" unfolding strip_def e by simp
qed

lemma sub_ws_no_lead:
  "s = [] \<or> \<not> is_space (hd s) \<Longrightarrow> sub_ws s = [] \<or> \<not> is_space (hd (sub_ws s))"
  by (cases s) auto

lemma sub_ws_last:
  "s \<noteq> [] \<Longrightarrow> \<not> is_space (last s) \<Longrightarrow> sub_ws s \<noteq> [] \<and> last (sub_ws s) = last s"
proof (induction s rule: sub_ws.induct)
  case 1
  then show ?case by simp
next
  case (2 c cs)
  show ?case
  proof (cases "cs = []")
    case True
    with 2 show ?thesis by simp
  next
    case False
    with 2 have l: "\<not> is_space (last cs)" by simp
    show ?thesis
    proof (cases "is_space c")
      case True
      have ne: "dropWhile is_space cs \<noteq> []" using False l by (rule dropWhile_last_nonempty)
      then have "last (dropWhile is_space cs) = last cs" by (rule last_dropWhile)
      with 2 True ne l False show ?thesis by simp
    next
      case c: False
      with 2 False l show ?thesis by simp
    qed
  qed
qed

lemma sub_ws_no_trail:
  "s = [] \<or> \<not> is_space (last s) \<Longrightarrow> sub_ws s = [] \<or> \<not> is_space (last (sub_ws s))"
  using sub_ws_last [of s] by (cases "s = []") auto

lemma sub_ws_idem: "sub_ws (sub_ws s) = sub_ws s"
proof (induction s rule: sub_ws.induct)
  case 1
  then show ?case by simp
next
  case (2 c cs)
  show ?case
  proof (cases "is_space c")
    case True
    let ?u = "dropWhile is_space cs"
    have "?u = [] \<or> \<not> is_space (hd ?u)" using hd_dropWhile [of is_space cs] by blast
    then have "sub_ws ?u = [] \<or> \<not> is_space (hd (sub_ws ?u))"
      by (rule sub_ws_no_lead)
    then have "dropWhile is_space (sub_ws ?u) = sub_ws ?u" by (rule lstrip_id)
    with 2 True show ?thesis by simp
  next
    case False
    with 2 show ?thesis by simp
  qed
qed

lemma clean_text_ends:
  "clean_text s = [] \<or> (\<not> is_space (hd (clean_text s)) \<and> \<not> is_space (last (clean_text s)))"
  using strip_ends [of s] sub_ws_no_lead [of "strip s"] sub_ws_no_trail [of "strip s"]
  unfolding clean_text_def by blast

lemma sub_ws_append:
  "a \<noteq> [] \<Longrightarrow> \<not> is_space (last a) \<Longrightarrow> sub_ws (a @ b) = sub_ws a @ sub_ws b"
proof (induction a rule: sub_ws.induct)
  case 1
  then show ?case by simp
next
  case (2 c cs)
  show ?case
  proof (cases "cs = []")
    case True
    with 2 show ?thesis by simp
  next
    case False
    with 2 have l: "\<not> is_space (last cs)" by simp
    show ?thesis
    proof (cases "is_space c")
      case True
      have ne: "dropWhile is_space cs \<noteq> []" using False l by (rule dropWhile_last_nonempty)
      then have la: "last (dropWhile is_space cs) = last cs" by (rule last_dropWhile)
      have "last cs \<in> set cs" using False by simp
      then have "dropWhile is_space (cs @ b) = dropWhile is_space cs @ b"
        using l by (rule dropWhile_append1)
      with 2 True ne la l show ?thesis by simp
    next
      case c: False
      with 2 False l show ?thesis by simp
    qed
  qed
qed

lemma sub_ws_run:
  assumes "w \<noteq> []" "\<forall>c\<in>set w. is_space c" "b = [] \<or> \<not> is_space (hd b)"
  shows "sub_ws (w @ b) = CHR 0x20 # sub_ws b"
proof -
  obtain x xs where w: "w = x # xs" using assms(1) by (cases w) auto
  have "dropWhile is_space (xs @ b) = dropWhile is_space b"
    using assms(2) w by (intro dropWhile_append2) simp
  also have "\<dots> = b" using assms(3) by (rule lstrip_id)
  finally show ?thesis using assms(2) w by simp
qed

lemma sub_ws_plain: "\<forall>c\<in>set s. \<not> is_space c \<Longrightarrow> sub_ws s = s"
  by (induction s) auto

lemma strip_plain: "\<forall>c\<in>set s. \<not> is_space c \<Longrightarrow> strip s = s"
  by (rule strip_fixed) (cases s, auto)

lemma strip_lead: "\<forall>c\<in>set w. is_space c \<Longrightarrow> strip (w @ s) = strip s"
  by (simp add: strip_def dropWhile_append2)

lemma strip_trail:
  assumes "\<forall>c\<in>set w. is_space c"
  shows "strip (s @ w) = strip s"
proof (cases "\<forall>c\<in>set s. is_space c")
  case True
  then have e: "dropWhile is_space (s @ w) = []" "dropWhile is_space s = []"
    using assms by auto
  show ?thesis unfolding strip_def e by simp
next
  case False
  then obtain x where "x \<in> set s" "\<not> is_space x" by blast
  then have "dropWhile is_space (s @ w) = dropWhile is_space s @ w"
    by (rule dropWhile_append1)
  moreover have "dropWhile is_space (rev w @ t) = dropWhile is_space t" for t
    using assms by (intro dropWhile_append2) simp
  ultimately show ?thesis by (simp add: strip_def)
qed

lemma strip_keeps_last:
  assumes "a \<noteq> []" "\<not> is_space (last a)"
  shows "strip a \<noteq> [] \<and> \<not> is_space (last (strip a))"
proof -
  let ?a = "dropWhile is_space a"
  have ne: "?a \<noteq> []" using assms by (rule dropWhile_last_nonempty)
  then have l: "last ?a = last a" by (rule last_dropWhile)
  then have "rev (dropWhile is_space (rev ?a)) = ?a" using assms(2) by (intro rstrip_id) simp
  then have "strip a = ?a" by (simp add: strip_def)
  with ne l assms(2) show ?thesis by (simp del: dropWhile_eq_Nil_conv)
qed

lemma strip_mid:
  assumes a: "a \<noteq> []" "\<not> is_space (last a)" and b: "b \<noteq> []" "\<not> is_space (hd b)"
  shows "strip (a @ w @ b) = strip a @ w @ strip b"
proof -
  let ?a = "dropWhile is_space a"
  let ?b = "rev (dropWhile is_space (rev b))"
  have "last a \<in> set a" using a by simp
  then have 1: "dropWhile is_space (a @ w @ b) = ?a @ w @ b"
    using a(2) by (rule dropWhile_append1)
  have "hd b \<in> set (rev b)" using b by simp
  then have 2: "dropWhile is_space (rev b @ t) = dropWhile is_space (rev b) @ t" for t
    using b(2) by (rule dropWhile_append1)
  have 3: "strip (a @ w @ b) = ?a @ w @ ?b"
    by (simp add: strip_def 1 2)
  have ne: "?a \<noteq> []" using a by (rule dropWhile_last_nonempty)
  then have "last ?a = last a" by (rule last_dropWhile)
  then have "rev (dropWhile is_space (rev ?a)) = ?a" using a(2) by (intro rstrip_id) simp
  then have 4: "strip a = ?a" by (simp add: strip_def)
  have "dropWhile is_space b = b" using b by (intro lstrip_id) simp
  then have 5: "strip b = ?b" by (simp add: strip_def)
  show ?thesis by (simp only: 3 4 5)
qed

lemma clean_text_lead: "\<forall>c\<in>set w. is_space c \<Longrightarrow> clean_text (w @ s) = clean_text s"
  by (simp only: clean_text_def strip_lead)

lemma clean_text_trail: "\<forall>c\<in>set w. is_space c \<Longrightarrow> clean_text (s @ w) = clean_text s"
  by (simp only: clean_text_def strip_trail)

lemma clean_text_plain: "\<forall>c\<in>set s. \<not> is_space c \<Longrightarrow> clean_text s = s"
  by (simp only: clean_text_def strip_plain sub_ws_plain)

lemma clean_text_run:
  assumes a: "a \<noteq> []" "\<not> is_space (last a)" and b: "b \<noteq> []" "\<not> is_space (hd b)"
    and w: "w \<noteq> []" "\<forall>c\<in>set w. is_space c"
  shows "clean_text (a @ w @ b) = clean_text a @ CHR 0x20 # clean_text b"
proof -
  have sa: "strip a \<noteq> []" "\<not> is_space (last (strip a))"
    using strip_keeps_last [OF a] by blast+
  have "strip b = [] \<or> \<not> is_space (hd (strip b))" using strip_ends [of b] by blast
  then have "sub_ws (w @ strip b) = CHR 0x20 # sub_ws (strip b)"
    using w by (intro sub_ws_run) auto
  then show ?thesis
    using sub_ws_append [OF sa, of "w @ strip b"]
    by (simp add: clean_text_def strip_mid [OF a b])
qed

lemma clean_text_example:
  "clean_text (''a'' @ [CHR 0x0A, CHR 0x0A] @ ''  b'' @ [CHR 0x09, CHR 0x09] @ ''c  '') = ''a b c''"
  by (simp add: clean_text_def strip_def is_space_def)

text \<open>
  Claim C7. The normalizer trims whitespace at both ends (a whitespace string \<open>w\<close> put
  before or after the input changes nothing), turns every run of whitespace between two
  non-whitespace characters into exactly one space, and leaves text without whitespace
  as it is; line feed and tab are whitespace. On \<open>"a\n\n  b\t\tc  "\<close> it returns
  \<open>"a b c"\<close>.
\<close>

theorem clean_text_collapses_whitespace:
  "clean_text (''a'' @ [CHR 0x0A, CHR 0x0A] @ ''  b'' @ [CHR 0x09, CHR 0x09] @ ''c  '') = ''a b c''
   \<and> is_space (CHR 0x0A) \<and> is_space (CHR 0x09)
   \<and> ((\<forall>c\<in>set w. is_space c) \<longrightarrow>
        clean_text (w @ s) = clean_text s \<and> clean_text (s @ w) = clean_text s)
   \<and> (w \<noteq> [] \<and> (\<forall>c\<in>set w. is_space c) \<and> a \<noteq> [] \<and> \<not> is_space (last a)
        \<and> b \<noteq> [] \<and> \<not> is_space (hd b) \<longrightarrow>
        clean_text (a @ w @ b) = clean_text a @ '' '' @ clean_text b)
   \<and> ((\<forall>c\<in>set t. \<not> is_space c) \<longrightarrow> clean_text t = t)"
proof -
  have "is_space (CHR 0x0A)" "is_space (CHR 0x09)" by (simp_all add: is_space_def)
  then show ?thesis
    using clean_text_example clean_text_lead [of w s] clean_text_trail [of w s]
      clean_text_run [of a b w] clean_text_plain [of t]
    by simp
qed

theorem clean_text_collapses_whitespace_witness:
  "list_all is_space [CHR 0x09, CHR 0x0A, CHR 0x20]
   \<and> clean_text ([CHR 0x09, CHR 0x0A, CHR 0x20] @ ''x  y'') = clean_text ''x  y''
   \<and> clean_text (''x  y'' @ [CHR 0x09, CHR 0x0A, CHR 0x20]) = clean_text ''x  y''
   \<and> clean_text (''Hello'' @ [CHR 0x09, CHR 0x0A, CHR 0x20] @ ''world'') = ''Hello world''
   \<and> \<not> list_ex is_space ''Goodbye'' \<and> clean_text ''Goodbye'' = ''Goodbye''"
proof -
  have w: "\<forall>c\<in>set [CHR 0x09, CHR 0x0A, CHR 0x20]. is_space c"
    by (simp add: is_space_def)
  have ab: "''Hello'' \<noteq> [] \<and> \<not> is_space (last ''Hello'')
            \<and> ''world'' \<noteq> [] \<and> \<not> is_space (hd ''world'')"
    by (simp add: is_space_def)
  have t: "\<forall>c\<in>set ''Goodbye''. \<not> is_space c"
    by (simp add: is_space_def)
  have h: "clean_text ''Hello'' = ''Hello''" "clean_text ''world'' = ''world''"
    by (simp_all add: clean_text_def strip_def is_space_def)
  show ?thesis
    using w ab t h
      clean_text_collapses_whitespace
        [of "[CHR 0x09, CHR 0x0A, CHR 0x20]" "''x  y''" "''Hello''" "''world''" "''Goodbye''"]
    by simp
qed

text \<open>
  Claim C8. The normalizer is idempotent: cleaning a cleaned text changes nothing.
\<close>

theorem clean_text_idempotent: "clean_text (clean_text s) = clean_text s"
proof -
  have "strip (clean_text s) = clean_text s" using clean_text_ends by (rule strip_fixed)
  then show ?thesis by (simp add: clean_text_def sub_ws_idem)
qed

section \<open>Properties of the caption parser\<close>

lemma replace_crlf_id: "CHR 0x0D \<notin> set s \<Longrightarrow> replace_crlf s = s"
  by (induction s rule: replace_crlf.induct) auto

lemma after_blank_first:
  "after_blank (h @ [CHR 0x0A]) = None \<Longrightarrow> after_blank (h @ CHR 0x0A # CHR 0x0A # rest) = Some rest"
  by (induction h rule: after_blank.induct) (auto split: if_splits)

lemma drop_header_block:
  "after_blank (h @ [CHR 0x0A]) = None \<Longrightarrow>
   drop_header (''WEBVTT'' @ h @ CHR 0x0A # CHR 0x0A # rest) = rest"
  by (simp add: drop_header_def after_blank_first)

lemma starts_with_line:
  "CHR 0x0A \<notin> set p \<Longrightarrow> starts_with p (l @ CHR 0x0A # rest) \<Longrightarrow> starts_with p l"
  by (induction p l rule: starts_with.induct) auto

lemma note_match_no: "\<not> (bol \<and> starts_with ''NOTE'' s) \<Longrightarrow> note_match bol s = None"
  unfolding note_match_def by (rule if_not_P)

lemma drop_notes_line:
  "CHR 0x0A \<notin> set l \<Longrightarrow> \<not> (bol \<and> starts_with ''NOTE'' l) \<Longrightarrow>
   drop_notes bol (l @ CHR 0x0A # rest) = l @ CHR 0x0A # drop_notes True rest"
proof (induction l arbitrary: bol)
  case Nil
  then show ?case by (simp add: note_match_def)
next
  case (Cons c cs)
  have "\<not> (bol \<and> starts_with ''NOTE'' ((c # cs) @ CHR 0x0A # rest))"
    using Cons.prems(2) starts_with_line [of "''NOTE''" "c # cs" rest] by auto
  then have "note_match bol (c # cs @ CHR 0x0A # rest) = None"
    using note_match_no [of bol "c # cs @ CHR 0x0A # rest"] by simp
  moreover have "drop_notes False (cs @ CHR 0x0A # rest) = cs @ CHR 0x0A # drop_notes True rest"
    using Cons.prems(1) by (intro Cons.IH) auto
  moreover have "(c = CHR 0x0A) = False" using Cons.prems(1) by auto
  ultimately show ?case by simp
qed

lemma drop_notes_last:
  "CHR 0x0A \<notin> set l \<Longrightarrow> \<not> (bol \<and> starts_with ''NOTE'' l) \<Longrightarrow> drop_notes bol l = l"
proof (induction l arbitrary: bol)
  case Nil
  then show ?case by simp
next
  case (Cons c cs)
  have "note_match bol (c # cs) = None"
    using Cons.prems(2) by (rule note_match_no)
  moreover have "drop_notes False cs = cs"
    using Cons.prems(1) by (intro Cons.IH) auto
  moreover have "(c = CHR 0x0A) = False" using Cons.prems(1) by auto
  ultimately show ?case by simp
qed

lemma drop_notes_lines:
  "\<forall>l\<in>set ls. CHR 0x0A \<notin> set l \<and> \<not> starts_with ''NOTE'' l \<Longrightarrow>
   drop_notes True (join_nl ls) = join_nl ls"
proof (induction ls rule: join_nl.induct)
  case 1
  then show ?case by simp
next
  case (2 x)
  then show ?case by (simp add: drop_notes_last)
next
  case (3 x y ys)
  then show ?case by (simp add: drop_notes_line)
qed

lemma split_nl_line: "CHR 0x0A \<notin> set l \<Longrightarrow> split_nl (l @ CHR 0x0A # rest) = l # split_nl rest"
  by (induction l) auto

lemma split_nl_last: "CHR 0x0A \<notin> set l \<Longrightarrow> split_nl l = [l]"
  by (induction l) auto

lemma split_nl_lines:
  "ls \<noteq> [] \<Longrightarrow> \<forall>l\<in>set ls. CHR 0x0A \<notin> set l \<Longrightarrow> split_nl (join_nl ls) = ls"
  by (induction ls rule: join_nl.induct) (simp_all add: split_nl_line split_nl_last)

lemma out_lines_filter:
  "out_lines ls =
     filter (\<lambda>x. x \<noteq> [])
       (map drop_tags
          (filter (\<lambda>l. l \<noteq> [] \<and> \<not> py_in ''-->'' l \<and> \<not> list_all is_digit l) (map strip ls)))"
  by (induction ls) (simp_all add: vtt_line_def Let_def)

lemma drop_tags_plain: "CHR ''<'' \<notin> set a \<Longrightarrow> drop_tags (a @ b) = a @ drop_tags b"
  by (induction a) auto

lemma drop_tags_tag:
  assumes "tg \<noteq> []" "CHR ''>'' \<notin> set tg"
  shows "drop_tags (CHR ''<'' # tg @ CHR ''>'' # b) = drop_tags b"
proof -
  have "takeWhile (\<lambda>x. x \<noteq> CHR ''>'') (tg @ CHR ''>'' # b) = tg"
    using assms(2) by (induction tg) auto
  moreover have "dropWhile (\<lambda>x. x \<noteq> CHR ''>'') (tg @ CHR ''>'' # b) = CHR ''>'' # b"
    using assms(2) by (induction tg) auto
  ultimately show ?thesis using assms(1) by simp
qed

lemma set_join_nl: "set (join_nl ls) \<subseteq> insert (CHR 0x0A) (\<Union>l\<in>set ls. set l)"
  by (induction ls rule: join_nl.induct) auto

lemma parse_vtt_lines:
  assumes h: "after_blank (h @ [CHR 0x0A]) = None" "CHR 0x0D \<notin> set h"
    and ls: "ls \<noteq> []"
      "\<forall>l\<in>set ls. CHR 0x0A \<notin> set l \<and> CHR 0x0D \<notin> set l \<and> \<not> starts_with ''NOTE'' l"
  shows "parse_vtt_to_text (''WEBVTT'' @ h @ [CHR 0x0A, CHR 0x0A] @ join_nl ls) =
         clean_text (join_sp (out_lines ls))"
proof -
  let ?doc = "''WEBVTT'' @ h @ [CHR 0x0A, CHR 0x0A] @ join_nl ls"
  have "CHR 0x0D \<notin> set (join_nl ls)" using ls(2) set_join_nl [of ls] by auto
  then have "CHR 0x0D \<notin> set ?doc" using h(2) by simp
  then have 1: "replace_crlf ?doc = ?doc" by (rule replace_crlf_id)
  have 2: "drop_header ?doc = join_nl ls"
    using drop_header_block [OF h(1), of "join_nl ls"] by simp
  have 3: "drop_notes True (join_nl ls) = join_nl ls"
    using ls(2) by (intro drop_notes_lines) blast
  have 4: "split_nl (join_nl ls) = ls"
    using ls by (intro split_nl_lines) blast+
  show ?thesis
    unfolding parse_vtt_to_text_def Let_def 1 2 3 4 ..
qed

lemma parse_vtt_example:
  "parse_vtt_to_text ''WEBVTT\<newline>\<newline>1\<newline>00:00:01.000 --> 00:00:02.000\<newline>Hello <c>world</c>\<newline>\<newline>2\<newline>00:00:02.000 --> 00:00:03.000\<newline>Goodbye\<newline>'' = ''Hello world Goodbye''"
  by code_simp

text \<open>
  What the parser does on a document made of a header block (the signature, any text \<open>h\<close>
  without a blank line, a blank line) and lines \<open>ls\<close> without carriage returns, none of
  which opens a comment block: the result is the normalized join, by single spaces and
  in the original order, of the lines that are left after trimming each line, dropping
  the empty ones, those containing \<open>-->\<close> and those made of digits only, and removing
  the tags; removing a tag \<open><tg>\<close> keeps the text before and after it.
\<close>

lemma parse_vtt_header_and_lines:
  "(after_blank (h @ [CHR 0x0A]) = None \<and> CHR 0x0D \<notin> set h \<and> ls \<noteq> []
        \<and> (\<forall>l\<in>set ls. CHR 0x0A \<notin> set l \<and> CHR 0x0D \<notin> set l \<and> \<not> starts_with ''NOTE'' l)
      \<longrightarrow> parse_vtt_to_text (''WEBVTT'' @ h @ [CHR 0x0A, CHR 0x0A] @ join_nl ls) =
           clean_text (join_sp (filter (\<lambda>x. x \<noteq> [])
             (map drop_tags
               (filter (\<lambda>l. l \<noteq> [] \<and> \<not> py_in ''-->'' l \<and> \<not> list_all is_digit l)
                 (map strip ls))))))
   \<and> (CHR ''<'' \<notin> set a \<and> tg \<noteq> [] \<and> CHR ''>'' \<notin> set tg
      \<longrightarrow> drop_tags (a @ ''<'' @ tg @ ''>'' @ b) = a @ drop_tags b)"
proof (intro conjI impI)
  assume a: "after_blank (h @ [CHR 0x0A]) = None \<and> CHR 0x0D \<notin> set h \<and> ls \<noteq> []
        \<and> (\<forall>l\<in>set ls. CHR 0x0A \<notin> set l \<and> CHR 0x0D \<notin> set l \<and> \<not> starts_with ''NOTE'' l)"
  then have "parse_vtt_to_text (''WEBVTT'' @ h @ [CHR 0x0A, CHR 0x0A] @ join_nl ls) =
         clean_text (join_sp (out_lines ls))"
    by (intro parse_vtt_lines) blast+
  then show "parse_vtt_to_text (''WEBVTT'' @ h @ [CHR 0x0A, CHR 0x0A] @ join_nl ls) =
           clean_text (join_sp (filter (\<lambda>x. x \<noteq> [])
             (map drop_tags
               (filter (\<lambda>l. l \<noteq> [] \<and> \<not> py_in ''-->'' l \<and> \<not> list_all is_digit l)
                 (map strip ls)))))"
    by (simp only: out_lines_filter)
next
  assume "CHR ''<'' \<notin> set a \<and> tg \<noteq> [] \<and> CHR ''>'' \<notin> set tg"
  then show "drop_tags (a @ ''<'' @ tg @ ''>'' @ b) = a @ drop_tags b"
    using drop_tags_plain [of a "CHR ''<'' # tg @ CHR ''>'' # b"] drop_tags_tag [of tg b]
    by simp
qed

text \<open>
  Claim C4. On the example document the parser returns \<open>"Hello world Goodbye"\<close>, with
  line feeds as with carriage return and line feed, and a header block that ends in a
  blank line is dropped. The header is not dropped in general: the pattern needs the
  two line feeds, so a header that ends the document without a blank line after it is
  kept, and the signature and the header lines reach the output.
\<close>

theorem parse_vtt_header_without_blank_line_kept:
  "parse_vtt_to_text ''WEBVTT\<newline>\<newline>1\<newline>00:00:01.000 --> 00:00:02.000\<newline>Hello <c>world</c>\<newline>\<newline>2\<newline>00:00:02.000 --> 00:00:03.000\<newline>Goodbye\<newline>'' = ''Hello world Goodbye''
   \<and> parse_vtt_to_text
        (''WEBVTT'' @ [CHR 0x0D, CHR 0x0A, CHR 0x0D, CHR 0x0A] @ ''1'' @ [CHR 0x0D, CHR 0x0A]
         @ ''00:00:01.000 --> 00:00:02.000'' @ [CHR 0x0D, CHR 0x0A]
         @ ''Hello <c>world</c>'' @ [CHR 0x0D, CHR 0x0A, CHR 0x0D, CHR 0x0A] @ ''2'' @ [CHR 0x0D, CHR 0x0A]
         @ ''00:00:02.000 --> 00:00:03.000'' @ [CHR 0x0D, CHR 0x0A]
         @ ''Goodbye'' @ [CHR 0x0D, CHR 0x0A]) = ''Hello world Goodbye''
   \<and> parse_vtt_to_text ''WEBVTT\<newline>Kind: captions\<newline>Language: en\<newline>\<newline>'' = []
   \<and> parse_vtt_to_text ''WEBVTT\<newline>'' = ''WEBVTT''
   \<and> parse_vtt_to_text ''WEBVTT\<newline>Kind: captions\<newline>Language: en\<newline>''
       = ''WEBVTT Kind: captions Language: en''"
  by code_simp

text \<open>
  Claim C9. A comment block that is followed by a blank line is removed, but one that
  ends the document without a blank line after it is kept: the pattern needs the two line
  feeds, so the text of a trailing block reaches the output.
\<close>

theorem parse_vtt_trailing_note_kept:
  "parse_vtt_to_text ''WEBVTT\<newline>\<newline>1\<newline>00:00:01.000 --> 00:00:02.000\<newline>Hello\<newline>\<newline>NOTE secret\<newline>\<newline>2\<newline>00:00:02.000 --> 00:00:03.000\<newline>Bye\<newline>'' = ''Hello Bye''
   \<and> parse_vtt_to_text ''WEBVTT\<newline>\<newline>1\<newline>00:00:01.000 --> 00:00:02.000\<newline>Hello\<newline>\<newline>NOTE secret\<newline>'' = ''Hello NOTE secret''"
  by code_simp

section \<open>Properties of the fetchers and of the handler\<close>

lemma run_eq:
  "run w cmd cwd t st =
     (case fst (subprocess w cmd cwd t (files st)) of
        Exited n \<Rightarrow> if n = 0 then Inr () else Inl (CalledProcessError n)
      | TimedOut \<Rightarrow> Inl TimeoutExpired
      | NotStarted \<Rightarrow> Inl OSError,
      \<lparr>files = snd (subprocess w cmd cwd t (files st)),
       trace = trace st @ [Subprocess cmd cwd t]\<rparr>)"
  by (simp add: run_def split: prod.splits)

lemma download_subtitles_eq:
  "download_subtitles w youtube_url workdir lang st =
     (pick_vtt lang (find_vtts workdir (files_after_subs w youtube_url workdir lang (files st))),
      \<lparr>files = files_after_subs w youtube_url workdir lang (files st),
       trace = trace st @ [subs_call ''--write-subs'' youtube_url workdir lang,
                           subs_call ''--write-auto-subs'' youtube_url workdir lang]\<rparr>)"
  by (simp add: download_subtitles_def run_eq files_after_subs_def subs_call_def Let_def)

lemma download_audio_eq:
  "download_audio w youtube_url workdir st =
     (case fst (audio_step w youtube_url workdir (files st)) of
        Exited n \<Rightarrow>
          if n = 0
          then (if glob workdir ''audio.'' [] (snd (audio_step w youtube_url workdir (files st))) = []
                then Inl (RuntimeError ''Audio download produced no file'')
                else Inr (hd (glob workdir ''audio.'' []
                                (snd (audio_step w youtube_url workdir (files st))))))
          else Inl (CalledProcessError n)
      | TimedOut \<Rightarrow> Inl TimeoutExpired
      | NotStarted \<Rightarrow> Inl OSError,
      \<lparr>files = snd (audio_step w youtube_url workdir (files st)),
       trace = trace st @ [audio_call youtube_url workdir]\<rparr>)"
  by (simp add: download_audio_def run_eq audio_step_def audio_call_def Let_def
      split: proc_exit.splits)

lemma transcribe_trace:
  "trace (snd (transcribe_with_faster_whisper w audio_path st)) = trace st @ [Whisper audio_path]"
  by (simp add: transcribe_with_faster_whisper_def Let_def split: sum.splits)

lemma glob_readable:
  assumes "p \<in> set (glob dir pre suf fs)"
  shows "\<exists>doc. read_text dir p fs = Inr doc"
proof -
  from assms obtain name where "name \<in> fst ` set fs" "p = path_join dir name"
    by (auto simp: glob_def)
  then have "p \<in> fst ` set (map (\<lambda>(name, content). (path_join dir name, content)) fs)"
    by force
  then have "map_of (map (\<lambda>(name, content). (path_join dir name, content)) fs) p \<noteq> None"
    by (simp only: map_of_eq_None_iff not_not)
  then show ?thesis by (auto simp: read_text_def)
qed

lemma read_text_newlines:
  "read_text ''/tmp/tmpk3x9'' ''/tmp/tmpk3x9/subs.en.vtt''
     [(''subs.en.vtt'',
       ''a'' @ [CHR 0x0D, CHR 0x0A] @ ''b'' @ [CHR 0x0D] @ ''c'' @ [CHR 0x0D, CHR 0x0D, CHR 0x0A]
       @ ''d'' @ [CHR 0x0A, CHR 0x0D] @ ''e'' @ [CHR 0x0D])]
   = Inr ''a\<newline>b\<newline>c\<newline>\<newline>d\<newline>\<newline>e\<newline>''"
  by code_simp

lemma pick_vtt_member: "pick_vtt lang vtts = Some p \<Longrightarrow> p \<in> set vtts"
  by (auto simp: pick_vtt_def find_Some_iff split: if_splits option.splits)

lemma find_vtts_readable:
  assumes "p \<in> set (find_vtts dir fs)"
  shows "\<exists>doc. read_text dir p fs = Inr doc"
  using assms glob_readable [of p dir "''subs.''" "''.vtt''" fs] glob_readable [of p dir "[]" "''.vtt''" fs]
  by (auto simp: find_vtts_def Let_def split: if_splits)

text \<open>The text the caption tier recovers from a directory.\<close>

lemma try_subtitles_eq:
  "\<exists>text. try_subtitles w youtube_url workdir lang st =
     (Inr text,
      \<lparr>files = files_after_subs w youtube_url workdir lang (files st),
       trace = trace st @ [subs_call ''--write-subs'' youtube_url workdir lang,
                           subs_call ''--write-auto-subs'' youtube_url workdir lang]\<rparr>)
     \<and> (pick_vtt lang (find_vtts workdir (files_after_subs w youtube_url workdir lang (files st))) = None
          \<longrightarrow> text = [])"
proof (cases "pick_vtt lang (find_vtts workdir (files_after_subs w youtube_url workdir lang (files st)))")
  case None
  then show ?thesis by (simp add: try_subtitles_def download_subtitles_eq)
next
  case (Some p)
  then have "p \<in> set (find_vtts workdir (files_after_subs w youtube_url workdir lang (files st)))"
    by (rule pick_vtt_member)
  then obtain doc where
    "read_text workdir p (files_after_subs w youtube_url workdir lang (files st)) = Inr doc"
    using find_vtts_readable by blast
  with Some show ?thesis by (simp add: try_subtitles_def download_subtitles_eq)
qed

lemma transcribe_eq:
  "transcribe_with_faster_whisper w audio_path st =
     (case whisper w audio_path (files st) of
        Inl e \<Rightarrow> Inl e
      | Inr segments \<Rightarrow> Inr (clean_text (join_sp (filter (\<lambda>text. text \<noteq> []) segments))),
      st\<lparr>trace := trace st @ [Whisper audio_path]\<rparr>)"
  by (simp add: transcribe_with_faster_whisper_def Let_def split: sum.splits)

lemma download_audio_snd:
  "snd (download_audio w youtube_url workdir st) =
     \<lparr>files = snd (audio_step w youtube_url workdir (files st)),
      trace = trace st @ [audio_call youtube_url workdir]\<rparr>"
  by (simp add: download_audio_eq)

lemma asr_fallback_raises:
  assumes "fst (download_audio w youtube_url workdir st) = Inl e"
  shows "asr_fallback w youtube_url workdir lang st =
     (Inl e, \<lparr>files = snd (audio_step w youtube_url workdir (files st)),
              trace = trace st @ [audio_call youtube_url workdir]\<rparr>)"
proof -
  have "download_audio w youtube_url workdir st =
     (Inl e, \<lparr>files = snd (audio_step w youtube_url workdir (files st)),
              trace = trace st @ [audio_call youtube_url workdir]\<rparr>)"
    using assms download_audio_snd [of w youtube_url workdir st] by (simp add: prod_eq_iff)
  then show ?thesis by (simp add: asr_fallback_def)
qed

lemma asr_fallback_transcribes:
  assumes "fst (download_audio w youtube_url workdir st) = Inr a"
  shows "asr_fallback w youtube_url workdir lang st =
     (case whisper w a (snd (audio_step w youtube_url workdir (files st))) of
        Inl e \<Rightarrow> Inl e
      | Inr segments \<Rightarrow>
          if clean_text (join_sp (filter (\<lambda>text. text \<noteq> []) segments)) = []
          then Inr [(''error'', ''ASR returned empty transcript'')]
          else Inr [(''transcript'', clean_text (join_sp (filter (\<lambda>text. text \<noteq> []) segments))),
                    (''method'', ''asr''), (''lang'', lang)],
      \<lparr>files = snd (audio_step w youtube_url workdir (files st)),
       trace = trace st @ [audio_call youtube_url workdir, Whisper a]\<rparr>)"
proof -
  have "download_audio w youtube_url workdir st =
     (Inr a, \<lparr>files = snd (audio_step w youtube_url workdir (files st)),
              trace = trace st @ [audio_call youtube_url workdir]\<rparr>)"
    using assms download_audio_snd [of w youtube_url workdir st] by (simp add: prod_eq_iff)
  then show ?thesis by (simp add: asr_fallback_def transcribe_eq split: sum.splits)
qed

lemma asr_fallback_trace:
  "trace (snd (asr_fallback w youtube_url workdir lang st)) =
     trace st @ audio_call youtube_url workdir #
       (case fst (download_audio w youtube_url workdir st) of
          Inl e \<Rightarrow> []
        | Inr a \<Rightarrow> [Whisper a])"
  by (cases "fst (download_audio w youtube_url workdir st)")
     (simp_all add: asr_fallback_raises asr_fallback_transcribes)

lemma asr_fallback_result:
  "fst (asr_fallback w youtube_url workdir lang st) = Inr r \<Longrightarrow>
   r = [(''error'', ''ASR returned empty transcript'')]
   \<or> (\<exists>text. text \<noteq> [] \<and> r = [(''transcript'', text), (''method'', ''asr''), (''lang'', lang)])"
  by (cases "fst (download_audio w youtube_url workdir st)")
     (auto simp: asr_fallback_raises asr_fallback_transcribes split: sum.splits if_splits)

lemma handler_blank:
  "event_url event = [] \<Longrightarrow>
   handler w event = (Inr [(''error'', ''Missing input.youtubeUrl'')], [])"
  by (simp add: handler_def)

lemma handler_nonblank:
  assumes "event_url event \<noteq> []"
    and "try_subtitles w (event_url event) (tmpdir w) (event_lang event)
           \<lparr>files = [], trace = []\<rparr> = (Inr text, st1)"
  shows "handler w event =
     (if text \<noteq> []
      then (Inr [(''transcript'', text), (''method'', ''subtitles''), (''lang'', event_lang event)],
            trace st1)
      else (fst (asr_fallback w (event_url event) (tmpdir w) (event_lang event) st1),
            trace (snd (asr_fallback w (event_url event) (tmpdir w) (event_lang event) st1))))"
  using assms by (simp add: handler_def Let_def split: prod.splits)

lemma try_subtitles_trace:
  assumes "try_subtitles w youtube_url workdir lang st = (c, st1)"
  shows "trace st1 = trace st @ [subs_call ''--write-subs'' youtube_url workdir lang,
                                 subs_call ''--write-auto-subs'' youtube_url workdir lang]
         \<and> files st1 = files_after_subs w youtube_url workdir lang (files st)
         \<and> (\<exists>text. c = Inr text)"
  using assms try_subtitles_eq [of w youtube_url workdir lang st] by auto

lemma handler_result:
  assumes "fst (handler w event) = Inr r"
  shows "r = [(''error'', ''Missing input.youtubeUrl'')]
     \<or> r = [(''error'', ''ASR returned empty transcript'')]
     \<or> (\<exists>text. text \<noteq> [] \<and>
          (r = [(''transcript'', text), (''method'', ''subtitles''), (''lang'', event_lang event)]
           \<or> r = [(''transcript'', text), (''method'', ''asr''), (''lang'', event_lang event)]))"
proof (cases "event_url event = []")
  case True
  with assms show ?thesis by (simp add: handler_blank)
next
  case False
  obtain tx st1 where t: "try_subtitles w (event_url event) (tmpdir w) (event_lang event)
           \<lparr>files = [], trace = []\<rparr> = (Inr tx, st1)"
    using try_subtitles_eq [of w "event_url event" "tmpdir w" "event_lang event"] by blast
  show ?thesis
  proof (cases "tx = []")
    case True
    with assms handler_nonblank [OF False t]
    have "fst (asr_fallback w (event_url event) (tmpdir w) (event_lang event) st1) = Inr r"
      by simp
    from asr_fallback_result [OF this] show ?thesis
    proof
      assume "r = [(''error'', ''ASR returned empty transcript'')]"
      then show ?thesis by (intro disjI2 disjI1)
    next
      assume "\<exists>text. text \<noteq> [] \<and>
        r = [(''transcript'', text), (''method'', ''asr''), (''lang'', event_lang event)]"
      then obtain tx2 where "tx2 \<noteq> []"
        "r = [(''transcript'', tx2), (''method'', ''asr''), (''lang'', event_lang event)]"
        by (elim exE conjE)
      then show ?thesis by (intro disjI2 exI [of _ tx2] conjI)
    qed
  next
    case nonempty: False
    with assms handler_nonblank [OF False t]
    have "r = [(''transcript'', tx), (''method'', ''subtitles''), (''lang'', event_lang event)]"
      by simp
    with nonempty show ?thesis by (intro disjI2 exI [of _ tx] conjI disjI1)
  qed
qed

lemma event_url_blank_iff:
  "event_url event = [] \<longleftrightarrow>
     map_of (event_input event) ''youtubeUrl'' = None
     \<or> (\<exists>u. map_of (event_input event) ''youtubeUrl'' = Some u \<and> list_all is_space u)"
  by (cases "map_of (event_input event) ''youtubeUrl''")
     (simp_all add: event_url_def strip_empty_iff list_all_iff)

lemma strip_en: "strip ''en'' = ''en''"
  by (simp add: strip_def is_space_def)

lemma event_lang_eq:
  "event_lang event =
     (case map_of (event_input event) ''lang'' of
        None \<Rightarrow> ''en''
      | Some l \<Rightarrow> if strip l = [] then ''en'' else strip l)"
proof (cases "map_of (event_input event) ''lang''")
  case None
  then show ?thesis by (simp add: event_lang_def strip_en)
next
  case (Some l)
  have "strip [] = []" by (simp add: strip_def)
  with Some show ?thesis by (simp add: event_lang_def strip_en Let_def)
qed

text \<open>
  Claim C6. When the event has no \<open>youtubeUrl\<close> (no event, no \<open>input\<close>, no such key) or
  the value is blank, the handler returns the error record at once: nothing has been
  called, the trace is empty. The message of the source is \<open>Missing input.youtubeUrl\<close>.
\<close>

theorem handler_missing_url:
  assumes "map_of (event_input event) ''youtubeUrl'' = None
     \<or> (\<exists>u. map_of (event_input event) ''youtubeUrl'' = Some u \<and> list_all is_space u)"
  shows "handler w event = (Inr [(''error'', ''Missing input.youtubeUrl'')], [])
     \<and> is_error [(''error'', ''Missing input.youtubeUrl'')]
     \<and> \<not> asr_invoked (snd (handler w event))"
proof -
  have "event_url event = []" using assms by (simp only: event_url_blank_iff)
  then have "handler w event = (Inr [(''error'', ''Missing input.youtubeUrl'')], [])"
    by (rule handler_blank)
  then show ?thesis by (simp add: is_error_def asr_invoked_def)
qed

theorem handler_missing_url_witness:
  "map_of (event_input (Some [(''input'', [])])) ''youtubeUrl'' = None
   \<and> handler (scripted [(''subs.en.vtt'', ''Hello'')] (Exited 0) [(''audio.webm'', [])] (Inr [''Hello'']))
        (Some [(''input'', [])])
      = (Inr [(''error'', ''Missing input.youtubeUrl'')], [])"
proof -
  have h: "map_of (event_input (Some [(''input'', [])])) ''youtubeUrl'' = None"
    by (simp add: event_input_def)
  have c: "handler (scripted [(''subs.en.vtt'', ''Hello'')] (Exited 0) [(''audio.webm'', [])] (Inr [''Hello'']))
        (Some [(''input'', [])])
      = (Inr [(''error'', ''Missing input.youtubeUrl'')], [])"
    by (rule handler_missing_url [OF disjI1 [OF h], THEN conjunct1])
  show ?thesis by (intro conjI) (fact h c)+
qed

text \<open>
  Claim C10. In every transcript result, from captions or from the recogniser, the field
  \<open>lang\<close> is the language computed from the request: the hint with whitespace trimmed, or
  \<open>en\<close> when there is no hint or the hint is blank. The caption file that was picked plays
  no part in it.
\<close>

theorem handler_lang_is_hint:
  assumes "fst (handler w event) = Inr r" and "is_transcript r"
  shows "map_of r ''lang'' = Some (event_lang event)
     \<and> event_lang event =
         (case map_of (event_input event) ''lang'' of
            None \<Rightarrow> ''en''
          | Some l \<Rightarrow> if strip l = [] then ''en'' else strip l)"
proof -
  from handler_result [OF assms(1)] have "map_of r ''lang'' = Some (event_lang event)"
  proof (elim disjE exE conjE)
    assume "r = [(''error'', ''Missing input.youtubeUrl'')]"
    with assms(2) show ?thesis by (simp add: is_transcript_def)
  next
    assume "r = [(''error'', ''ASR returned empty transcript'')]"
    with assms(2) show ?thesis by (simp add: is_transcript_def)
  next
    fix tx
    assume "r = [(''transcript'', tx), (''method'', ''subtitles''), (''lang'', event_lang event)]"
    then show ?thesis by simp
  next
    fix tx
    assume "r = [(''transcript'', tx), (''method'', ''asr''), (''lang'', event_lang event)]"
    then show ?thesis by simp
  qed
  then show ?thesis using event_lang_eq [of event] by (intro conjI)
qed

theorem handler_lang_is_hint_witness:
  "fst (download_subtitles
          (scripted [(''video.fr.vtt'', ''WEBVTT\<newline>\<newline>Bonjour\<newline>'')] (Exited 0) [] (Inr []))
          ''https://youtu.be/x'' ''/tmp/tmpk3x9'' ''de'' \<lparr>files = [], trace = []\<rparr>)
     = Some ''/tmp/tmpk3x9/video.fr.vtt''
   \<and> fst (handler
          (scripted [(''video.fr.vtt'', ''WEBVTT\<newline>\<newline>Bonjour\<newline>'')] (Exited 0) [] (Inr []))
          (request ''https://youtu.be/x'' '' de ''))
     = Inr [(''transcript'', ''Bonjour''), (''method'', ''subtitles''), (''lang'', ''de'')]
   \<and> is_transcript [(''transcript'', ''Bonjour''), (''method'', ''subtitles''), (''lang'', ''de'')]
   \<and> event_lang (request ''https://youtu.be/x'' '' de '') = ''de''"
proof -
  let ?w = "scripted [(''video.fr.vtt'', ''WEBVTT\<newline>\<newline>Bonjour\<newline>'')] (Exited 0) [] (Inr [])"
  let ?r = "[(''transcript'', ''Bonjour''), (''method'', ''subtitles''), (''lang'', ''de'')]"
  have p: "fst (download_subtitles ?w ''https://youtu.be/x'' ''/tmp/tmpk3x9'' ''de''
                  \<lparr>files = [], trace = []\<rparr>) = Some ''/tmp/tmpk3x9/video.fr.vtt''"
    by code_simp
  have h: "fst (handler ?w (request ''https://youtu.be/x'' '' de '')) = Inr ?r"
    by code_simp
  have t: "is_transcript ?r" by (simp add: is_transcript_def)
  have "map_of ?r ''lang'' = Some (event_lang (request ''https://youtu.be/x'' '' de ''))"
    by (rule handler_lang_is_hint [OF h t, THEN conjunct1])
  then have l: "event_lang (request ''https://youtu.be/x'' '' de '') = ''de''" by simp
  show ?thesis by (intro conjI) (fact p h t l)+
qed

text \<open>
  Claim C5, as the code has it. After both attempts (the second runs whatever the first
  did) the candidates are the entries matching \<open>subs.*.vtt\<close> or, only when there is none,
  those matching \<open>*.vtt\<close>. Without a candidate the result is \<open>None\<close>. Otherwise the result
  is the first candidate, in the order of the directory scan, whose path contains the
  language between two dots, and the very first candidate of the scan when no path does.
  The candidates are not sorted.
\<close>

theorem download_subtitles_first_in_scan_order:
  assumes "download_subtitles w youtube_url workdir lang st = (r, st2)"
    and "cands = (if glob workdir ''subs.'' ''.vtt'' (files st2) = []
                  then glob workdir [] ''.vtt'' (files st2)
                  else glob workdir ''subs.'' ''.vtt'' (files st2))"
  shows "files st2 = files_after_subs w youtube_url workdir lang (files st)
     \<and> trace st2 = trace st @ [subs_call ''--write-subs'' youtube_url workdir lang,
                                subs_call ''--write-auto-subs'' youtube_url workdir lang]
     \<and> (r = None \<longleftrightarrow> cands = [])
     \<and> (\<forall>p. r = Some p \<longrightarrow>
          (\<exists>i<length cands. p = cands ! i
             \<and> (\<forall>j<i. \<not> py_in (''.'' @ lang @ ''.'') (cands ! j))
             \<and> (py_in (''.'' @ lang @ ''.'') p
                 \<or> i = 0 \<and> (\<forall>q\<in>set cands. \<not> py_in (''.'' @ lang @ ''.'') q))))"
proof -
  let ?tag = "''.'' @ lang @ ''.''"
  from assms(1) have st2: "files st2 = files_after_subs w youtube_url workdir lang (files st)"
    "trace st2 = trace st @ [subs_call ''--write-subs'' youtube_url workdir lang,
                             subs_call ''--write-auto-subs'' youtube_url workdir lang]"
    by (auto simp: download_subtitles_eq)
  from assms(1) have "r = pick_vtt lang (find_vtts workdir (files st2))"
    by (auto simp: download_subtitles_eq)
  then have r: "r = pick_vtt lang cands"
    using assms(2) by (simp add: find_vtts_def Let_def)
  have none: "r = None \<longleftrightarrow> cands = []"
    unfolding r by (simp add: pick_vtt_def split: option.splits)
  have some: "\<exists>i<length cands. p = cands ! i
             \<and> (\<forall>j<i. \<not> py_in ?tag (cands ! j))
             \<and> (py_in ?tag p \<or> i = 0 \<and> (\<forall>q\<in>set cands. \<not> py_in ?tag q))"
    if p: "r = Some p" for p
  proof (cases "find (py_in ?tag) cands")
    case None
    from p none have ne: "cands \<noteq> []" by simp
    from None have no: "\<forall>q\<in>set cands. \<not> py_in ?tag q" by (simp add: find_None_iff)
    from p None ne have "p = hd cands" unfolding r by (simp add: pick_vtt_def)
    then have "p = cands ! 0" using ne by (simp add: hd_conv_nth)
    with ne no show ?thesis by (intro exI [of _ 0]) simp
  next
    case (Some q)
    with p have "p = q" unfolding r by (simp add: pick_vtt_def split: if_splits)
    with Some have "find (py_in ?tag) cands = Some p" by simp
    then obtain i where "i < length cands" "py_in ?tag (cands ! i)" "p = cands ! i"
      "\<forall>j<i. \<not> py_in ?tag (cands ! j)"
      unfolding find_Some_iff by blast
    then show ?thesis by (intro exI [of _ i]) simp
  qed
  show ?thesis using st2 none some by blast
qed

theorem download_subtitles_first_in_scan_order_witness:
  "download_subtitles
     (scripted [(''clip.vtt'', []), (''subs.fr.vtt'', []), (''subs.en.vtt'', [])] (Exited 0) [] (Inr []))
     ''https://youtu.be/x'' ''/tmp/tmpk3x9'' ''en'' \<lparr>files = [], trace = []\<rparr>
   = (Some ''/tmp/tmpk3x9/subs.en.vtt'',
      \<lparr>files = [(''clip.vtt'', []), (''subs.fr.vtt'', []), (''subs.en.vtt'', [])],
       trace = [subs_call ''--write-subs'' ''https://youtu.be/x'' ''/tmp/tmpk3x9'' ''en'',
                subs_call ''--write-auto-subs'' ''https://youtu.be/x'' ''/tmp/tmpk3x9'' ''en'']\<rparr>)
   \<and> glob ''/tmp/tmpk3x9'' ''subs.'' ''.vtt''
        [(''clip.vtt'', []), (''subs.fr.vtt'', []), (''subs.en.vtt'', [])]
      = [''/tmp/tmpk3x9/subs.fr.vtt'', ''/tmp/tmpk3x9/subs.en.vtt'']
   \<and> (\<exists>i<2. ''/tmp/tmpk3x9/subs.en.vtt''
                 = [''/tmp/tmpk3x9/subs.fr.vtt'', ''/tmp/tmpk3x9/subs.en.vtt''] ! i
              \<and> py_in ''.en.'' ''/tmp/tmpk3x9/subs.en.vtt'')"
proof -
  let ?w = "scripted [(''clip.vtt'', []), (''subs.fr.vtt'', []), (''subs.en.vtt'', [])] (Exited 0) [] (Inr [])"
  let ?fs = "[(''clip.vtt'', []), (''subs.fr.vtt'', []), (''subs.en.vtt'', [])] :: files"
  let ?st2 = "\<lparr>files = ?fs,
       trace = [subs_call ''--write-subs'' ''https://youtu.be/x'' ''/tmp/tmpk3x9'' ''en'',
                subs_call ''--write-auto-subs'' ''https://youtu.be/x'' ''/tmp/tmpk3x9'' ''en'']\<rparr>"
  let ?cands = "[''/tmp/tmpk3x9/subs.fr.vtt'', ''/tmp/tmpk3x9/subs.en.vtt'']"
  have d: "download_subtitles ?w ''https://youtu.be/x'' ''/tmp/tmpk3x9'' ''en''
             \<lparr>files = [], trace = []\<rparr> = (Some ''/tmp/tmpk3x9/subs.en.vtt'', ?st2)"
    by code_simp
  have g: "glob ''/tmp/tmpk3x9'' ''subs.'' ''.vtt'' ?fs = ?cands"
    by code_simp
  have c: "?cands = (if glob ''/tmp/tmpk3x9'' ''subs.'' ''.vtt'' (files ?st2) = []
                     then glob ''/tmp/tmpk3x9'' [] ''.vtt'' (files ?st2)
                     else glob ''/tmp/tmpk3x9'' ''subs.'' ''.vtt'' (files ?st2))"
    by (simp add: g)
  have "\<forall>p. Some ''/tmp/tmpk3x9/subs.en.vtt'' = Some p \<longrightarrow>
          (\<exists>i<length ?cands. p = ?cands ! i
             \<and> (\<forall>j<i. \<not> py_in (''.'' @ ''en'' @ ''.'') (?cands ! j))
             \<and> (py_in (''.'' @ ''en'' @ ''.'') p
                 \<or> i = 0 \<and> (\<forall>q\<in>set ?cands. \<not> py_in (''.'' @ ''en'' @ ''.'') q)))"
    using download_subtitles_first_in_scan_order [OF d c] by (elim conjE)
  then obtain i where i: "i < length ?cands" "''/tmp/tmpk3x9/subs.en.vtt'' = ?cands ! i"
      "py_in (''.'' @ ''en'' @ ''.'') ''/tmp/tmpk3x9/subs.en.vtt''
         \<or> i = 0 \<and> (\<forall>q\<in>set ?cands. \<not> py_in (''.'' @ ''en'' @ ''.'') q)"
    by blast
  have e: "py_in ''.en.'' ''/tmp/tmpk3x9/subs.en.vtt''" by simp
  from i(1) have "i < 2" by simp
  with i(2) e have x: "\<exists>i<2. ''/tmp/tmpk3x9/subs.en.vtt'' = ?cands ! i
              \<and> py_in ''.en.'' ''/tmp/tmpk3x9/subs.en.vtt''"
    by (intro exI [of _ i] conjI)
  show ?thesis by (intro conjI) (fact d g x)+
qed

text \<open>
  The claim as stated fails: with the scan order \<open>subs.fr.vtt\<close>, \<open>subs.de.vtt\<close> and the
  language \<open>en\<close> the result is the first entry of the scan, not the first in sorted order.
\<close>

theorem download_subtitles_not_sorted:
  "fst (download_subtitles
          (scripted [(''subs.fr.vtt'', []), (''subs.de.vtt'', [])] (Exited 0) [] (Inr []))
          ''https://youtu.be/x'' ''/tmp/tmpk3x9'' ''en'' \<lparr>files = [], trace = []\<rparr>)
     = Some ''/tmp/tmpk3x9/subs.fr.vtt''
   \<and> hd (sort (find_vtts ''/tmp/tmpk3x9''
                 (files_after_subs
                    (scripted [(''subs.fr.vtt'', []), (''subs.de.vtt'', [])] (Exited 0) [] (Inr []))
                    ''https://youtu.be/x'' ''/tmp/tmpk3x9'' ''en'' [])))
     = ''/tmp/tmpk3x9/subs.de.vtt''"
  by code_simp

lemma subs_trace_no_asr:
  "\<not> asr_invoked ([subs_call k1 u d l, subs_call k2 u d l] @ [audio_call u d])"
  by (simp add: asr_invoked_def subs_call_def audio_call_def)

text \<open>
  Claim C3, as the code has it. When the caption tier gives no text and no entry matches
  \<open>audio.*\<close> after the audio download, an exception leaves the handler and no record is
  returned: \<open>RuntimeError("Audio download produced no file")\<close> when the download exited
  with status 0, the exception of the subprocess otherwise. The recogniser is not called.
\<close>

theorem handler_no_audio_file:
  assumes "event_url event \<noteq> []"
    and "try_subtitles w (event_url event) (tmpdir w) (event_lang event)
           \<lparr>files = [], trace = []\<rparr> = (Inr [], st1)"
    and "audio_step w (event_url event) (tmpdir w) (files st1) = (ex, fs)"
    and "glob (tmpdir w) ''audio.'' [] fs = []"
  shows "fst (handler w event) =
           Inl (case ex of
                  Exited n \<Rightarrow> if n = 0 then RuntimeError ''Audio download produced no file''
                              else CalledProcessError n
                | TimedOut \<Rightarrow> TimeoutExpired
                | NotStarted \<Rightarrow> OSError)
     \<and> snd (handler w event) =
         [subs_call ''--write-subs'' (event_url event) (tmpdir w) (event_lang event),
          subs_call ''--write-auto-subs'' (event_url event) (tmpdir w) (event_lang event),
          audio_call (event_url event) (tmpdir w)]
     \<and> \<not> asr_invoked (snd (handler w event))"
proof -
  let ?e = "case ex of
                  Exited n \<Rightarrow> if n = 0 then RuntimeError ''Audio download produced no file''
                              else CalledProcessError n
                | TimedOut \<Rightarrow> TimeoutExpired
                | NotStarted \<Rightarrow> OSError"
  have a: "fst (download_audio w (event_url event) (tmpdir w) st1) = Inl ?e"
    using assms(3,4) by (simp add: download_audio_eq split: proc_exit.splits)
  have t: "trace st1 = [subs_call ''--write-subs'' (event_url event) (tmpdir w) (event_lang event),
          subs_call ''--write-auto-subs'' (event_url event) (tmpdir w) (event_lang event)]"
    using try_subtitles_trace [OF assms(2)] by simp
  have h: "handler w event =
      (fst (asr_fallback w (event_url event) (tmpdir w) (event_lang event) st1),
       trace (snd (asr_fallback w (event_url event) (tmpdir w) (event_lang event) st1)))"
    using handler_nonblank [OF assms(1,2)] by simp
  have 1: "fst (handler w event) = Inl ?e"
    unfolding h asr_fallback_raises [OF a] by simp
  have 2: "snd (handler w event) =
         [subs_call ''--write-subs'' (event_url event) (tmpdir w) (event_lang event),
          subs_call ''--write-auto-subs'' (event_url event) (tmpdir w) (event_lang event),
          audio_call (event_url event) (tmpdir w)]"
    unfolding h asr_fallback_raises [OF a] by (simp add: t)
  have 3: "\<not> asr_invoked (snd (handler w event))"
    unfolding 2 using subs_trace_no_asr by simp
  show ?thesis by (intro conjI) (fact 1 2 3)+
qed

theorem handler_no_audio_file_witness:
  "event_url (request ''https://youtu.be/x'' ''en'') \<noteq> []
   \<and> try_subtitles (scripted [] (Exited 0) [(''video.webm'', [])] (Inr [''Hello'']))
        ''https://youtu.be/x'' ''/tmp/tmpk3x9'' ''en'' \<lparr>files = [], trace = []\<rparr>
      = (Inr [], \<lparr>files = [],
                  trace = [subs_call ''--write-subs'' ''https://youtu.be/x'' ''/tmp/tmpk3x9'' ''en'',
                           subs_call ''--write-auto-subs'' ''https://youtu.be/x'' ''/tmp/tmpk3x9'' ''en'']\<rparr>)
   \<and> audio_step (scripted [] (Exited 0) [(''video.webm'', [])] (Inr [''Hello'']))
        ''https://youtu.be/x'' ''/tmp/tmpk3x9'' [] = (Exited 0, [(''video.webm'', [])])
   \<and> glob ''/tmp/tmpk3x9'' ''audio.'' [] [(''video.webm'', [])] = []
   \<and> fst (handler (scripted [] (Exited 0) [(''video.webm'', [])] (Inr [''Hello'']))
             (request ''https://youtu.be/x'' ''en''))
      = Inl (RuntimeError ''Audio download produced no file'')
   \<and> \<not> asr_invoked (snd (handler (scripted [] (Exited 0) [(''video.webm'', [])] (Inr [''Hello'']))
                              (request ''https://youtu.be/x'' ''en'')))"
proof -
  let ?w = "scripted [] (Exited 0) [(''video.webm'', [])] (Inr [''Hello''])"
  let ?ev = "request ''https://youtu.be/x'' ''en''"
  let ?st1 = "\<lparr>files = [],
                  trace = [subs_call ''--write-subs'' ''https://youtu.be/x'' ''/tmp/tmpk3x9'' ''en'',
                           subs_call ''--write-auto-subs'' ''https://youtu.be/x'' ''/tmp/tmpk3x9'' ''en'']\<rparr>"
  have u: "event_url ?ev = ''https://youtu.be/x''" by code_simp
  have l: "event_lang ?ev = ''en''" by code_simp
  have d: "tmpdir ?w = ''/tmp/tmpk3x9''" by (simp add: scripted_def)
  have 1: "event_url ?ev \<noteq> []" unfolding u by simp
  have 2: "try_subtitles ?w ''https://youtu.be/x'' ''/tmp/tmpk3x9'' ''en''
             \<lparr>files = [], trace = []\<rparr> = (Inr [], ?st1)"
    by code_simp
  have 3: "audio_step ?w ''https://youtu.be/x'' ''/tmp/tmpk3x9'' [] = (Exited 0, [(''video.webm'', [])])"
    by code_simp
  have 4: "glob ''/tmp/tmpk3x9'' ''audio.'' [] [(''video.webm'', [])] = []"
    by code_simp
  have i2: "try_subtitles ?w (event_url ?ev) (tmpdir ?w) (event_lang ?ev)
             \<lparr>files = [], trace = []\<rparr> = (Inr [], ?st1)"
    unfolding u l d by (rule 2)
  have i3: "audio_step ?w (event_url ?ev) (tmpdir ?w) (files ?st1) = (Exited 0, [(''video.webm'', [])])"
    unfolding u d using 3 by simp
  have i4: "glob (tmpdir ?w) ''audio.'' [] [(''video.webm'', [])] = []"
    unfolding d by (rule 4)
  note T = handler_no_audio_file [OF 1 i2 i3 i4]
  have 5: "fst (handler ?w ?ev) = Inl (RuntimeError ''Audio download produced no file'')"
    using T [THEN conjunct1] by simp
  have 6: "\<not> asr_invoked (snd (handler ?w ?ev))"
    by (rule T [THEN conjunct2, THEN conjunct2])
  show ?thesis by (intro conjI) (fact 1 2 3 4 5 6)+
qed

text \<open>
  The claim as stated fails: a caption file without text and an audio download that
  leaves no file end in an exception that leaves the handler, not in an error record.
\<close>

theorem handler_no_audio_file_raises:
  "handler (scripted [(''subs.en.vtt'', ''WEBVTT\<newline>\<newline>'')] (Exited 0) [] (Inr [''Hello'']))
     (request ''https://youtu.be/x'' ''en'')
   = (Inl (RuntimeError ''Audio download produced no file''),
      [subs_call ''--write-subs'' ''https://youtu.be/x'' ''/tmp/tmpk3x9'' ''en'',
       subs_call ''--write-auto-subs'' ''https://youtu.be/x'' ''/tmp/tmpk3x9'' ''en'',
       audio_call ''https://youtu.be/x'' ''/tmp/tmpk3x9''])"
  by code_simp

lemma asr_invoked_append: "asr_invoked (xs @ ys) \<longleftrightarrow> asr_invoked xs \<or> asr_invoked ys"
  by (auto simp: asr_invoked_def list_ex_iff)

lemma subs_calls_no_asr: "\<not> asr_invoked [subs_call k1 u d l, subs_call k2 u d l]"
  by (simp add: asr_invoked_def subs_call_def)

lemma asr_fallback_invokes:
  "asr_invoked (trace (snd (asr_fallback w youtube_url workdir lang st))) \<longleftrightarrow>
     asr_invoked (trace st) \<or> (\<exists>a. fst (download_audio w youtube_url workdir st) = Inr a)"
  by (cases "fst (download_audio w youtube_url workdir st)")
     (simp_all add: asr_fallback_trace asr_invoked_append,
      simp_all add: asr_invoked_def audio_call_def)

text \<open>
  Claim C2, as the code has it. For a request with a URL the two caption attempts come
  first in the trace, and the caption tier always ends with a text, empty when no caption
  file was found. A non-empty text is returned with method \<open>subtitles\<close> and nothing else
  is called. An empty text leads to the fallback tier, whose outcome is the handler's and
  whose first call is the audio download. The recogniser is called if and only if the
  caption text is empty and the audio download returned a file.
\<close>

theorem captions_before_asr:
  assumes "event_url event \<noteq> []"
    and "try_subtitles w (event_url event) (tmpdir w) (event_lang event)
           \<lparr>files = [], trace = []\<rparr> = (c, st1)"
  shows "trace st1 = [subs_call ''--write-subs'' (event_url event) (tmpdir w) (event_lang event),
                      subs_call ''--write-auto-subs'' (event_url event) (tmpdir w) (event_lang event)]
     \<and> (\<exists>rest. snd (handler w event) = trace st1 @ rest)
     \<and> (\<exists>tx. c = Inr tx)
     \<and> (fst (download_subtitles w (event_url event) (tmpdir w) (event_lang event)
                \<lparr>files = [], trace = []\<rparr>) = None \<longrightarrow> c = Inr [])
     \<and> (\<forall>tx. c = Inr tx \<and> tx \<noteq> [] \<longrightarrow>
          handler w event =
            (Inr [(''transcript'', tx), (''method'', ''subtitles''), (''lang'', event_lang event)],
             trace st1))
     \<and> (c = Inr [] \<longrightarrow>
          fst (handler w event) =
            fst (asr_fallback w (event_url event) (tmpdir w) (event_lang event) st1)
          \<and> (\<exists>rest. snd (handler w event) =
                trace st1 @ audio_call (event_url event) (tmpdir w) # rest))
     \<and> (asr_invoked (snd (handler w event)) \<longleftrightarrow>
          c = Inr [] \<and>
          (\<exists>a. fst (download_audio w (event_url event) (tmpdir w) st1) = Inr a))"
proof -
  let ?u = "event_url event" and ?d = "tmpdir w" and ?l = "event_lang event"
  let ?st0 = "\<lparr>files = [], trace = []\<rparr>"
  from try_subtitles_trace [OF assms(2)] obtain tx where
    t: "trace st1 = [subs_call ''--write-subs'' ?u ?d ?l, subs_call ''--write-auto-subs'' ?u ?d ?l]"
    and c: "c = Inr tx"
    by auto
  have no: "\<not> asr_invoked (trace st1)" unfolding t by (rule subs_calls_no_asr)
  have h: "handler w event =
     (if tx \<noteq> []
      then (Inr [(''transcript'', tx), (''method'', ''subtitles''), (''lang'', ?l)], trace st1)
      else (fst (asr_fallback w ?u ?d ?l st1), trace (snd (asr_fallback w ?u ?d ?l st1))))"
    using handler_nonblank [OF assms(1)] assms(2) c by simp
  have 1: "\<exists>rest. snd (handler w event) = trace st1 @ rest"
    unfolding h by (simp add: asr_fallback_trace)
  have 2: "fst (download_subtitles w ?u ?d ?l ?st0) = None \<longrightarrow> c = Inr []"
    using try_subtitles_eq [of w ?u ?d ?l ?st0] assms(2) by (auto simp: download_subtitles_eq)
  have 3: "\<forall>ty. c = Inr ty \<and> ty \<noteq> [] \<longrightarrow>
          handler w event =
            (Inr [(''transcript'', ty), (''method'', ''subtitles''), (''lang'', ?l)], trace st1)"
    unfolding h c by simp
  have 4: "c = Inr [] \<longrightarrow>
          fst (handler w event) = fst (asr_fallback w ?u ?d ?l st1)
          \<and> (\<exists>rest. snd (handler w event) = trace st1 @ audio_call ?u ?d # rest)"
    unfolding h c by (simp add: asr_fallback_trace)
  have 5: "asr_invoked (snd (handler w event)) \<longleftrightarrow>
          c = Inr [] \<and> (\<exists>a. fst (download_audio w ?u ?d st1) = Inr a)"
  proof (cases "tx = []")
    case True
    then show ?thesis unfolding h c using no by (simp add: asr_fallback_invokes)
  next
    case False
    then show ?thesis unfolding h c using no by simp
  qed
  have 0: "\<exists>ty. c = Inr ty" using c by (rule exI)
  show ?thesis by (intro conjI) (fact t 0 1 2 3 4 5)+
qed

theorem captions_before_asr_witness:
  "event_url (request ''https://youtu.be/x'' ''en'') \<noteq> []
   \<and> try_subtitles
        (scripted [(''subs.en.vtt'', ''WEBVTT\<newline>\<newline>Hello\<newline>'')] (Exited 0) [(''audio.webm'', [])] (Inr [''Bye'']))
        ''https://youtu.be/x'' ''/tmp/tmpk3x9'' ''en'' \<lparr>files = [], trace = []\<rparr>
      = (Inr ''Hello'',
         \<lparr>files = [(''subs.en.vtt'', ''WEBVTT\<newline>\<newline>Hello\<newline>'')],
          trace = [subs_call ''--write-subs'' ''https://youtu.be/x'' ''/tmp/tmpk3x9'' ''en'',
                   subs_call ''--write-auto-subs'' ''https://youtu.be/x'' ''/tmp/tmpk3x9'' ''en'']\<rparr>)
   \<and> handler
        (scripted [(''subs.en.vtt'', ''WEBVTT\<newline>\<newline>Hello\<newline>'')] (Exited 0) [(''audio.webm'', [])] (Inr [''Bye'']))
        (request ''https://youtu.be/x'' ''en'')
      = (Inr [(''transcript'', ''Hello''), (''method'', ''subtitles''), (''lang'', ''en'')],
         [subs_call ''--write-subs'' ''https://youtu.be/x'' ''/tmp/tmpk3x9'' ''en'',
          subs_call ''--write-auto-subs'' ''https://youtu.be/x'' ''/tmp/tmpk3x9'' ''en''])
   \<and> try_subtitles
        (scripted [] (Exited 0) [(''audio.webm'', [])] (Inr [''Bye'']))
        ''https://youtu.be/x'' ''/tmp/tmpk3x9'' ''en'' \<lparr>files = [], trace = []\<rparr>
      = (Inr [],
         \<lparr>files = [],
          trace = [subs_call ''--write-subs'' ''https://youtu.be/x'' ''/tmp/tmpk3x9'' ''en'',
                   subs_call ''--write-auto-subs'' ''https://youtu.be/x'' ''/tmp/tmpk3x9'' ''en'']\<rparr>)
   \<and> asr_invoked (snd (handler (scripted [] (Exited 0) [(''audio.webm'', [])] (Inr [''Bye'']))
                           (request ''https://youtu.be/x'' ''en'')))"
proof -
  let ?wa = "scripted [(''subs.en.vtt'', ''WEBVTT\<newline>\<newline>Hello\<newline>'')] (Exited 0) [(''audio.webm'', [])] (Inr [''Bye''])"
  let ?wb = "scripted [] (Exited 0) [(''audio.webm'', [])] (Inr [''Bye''])"
  let ?ev = "request ''https://youtu.be/x'' ''en''"
  let ?tr = "[subs_call ''--write-subs'' ''https://youtu.be/x'' ''/tmp/tmpk3x9'' ''en'',
              subs_call ''--write-auto-subs'' ''https://youtu.be/x'' ''/tmp/tmpk3x9'' ''en'']"
  let ?sa = "\<lparr>files = [(''subs.en.vtt'', ''WEBVTT\<newline>\<newline>Hello\<newline>'')], trace = ?tr\<rparr>"
  let ?sb = "\<lparr>files = [], trace = ?tr\<rparr>"
  have u: "event_url ?ev = ''https://youtu.be/x''" by code_simp
  have l: "event_lang ?ev = ''en''" by code_simp
  have da: "tmpdir ?wa = ''/tmp/tmpk3x9''" by (simp add: scripted_def)
  have db: "tmpdir ?wb = ''/tmp/tmpk3x9''" by (simp add: scripted_def)
  have 1: "event_url ?ev \<noteq> []" unfolding u by simp
  have 2: "try_subtitles ?wa ''https://youtu.be/x'' ''/tmp/tmpk3x9'' ''en''
             \<lparr>files = [], trace = []\<rparr> = (Inr ''Hello'', ?sa)"
    by code_simp
  have 3: "try_subtitles ?wb ''https://youtu.be/x'' ''/tmp/tmpk3x9'' ''en''
             \<lparr>files = [], trace = []\<rparr> = (Inr [], ?sb)"
    by code_simp
  have i2: "try_subtitles ?wa (event_url ?ev) (tmpdir ?wa) (event_lang ?ev)
             \<lparr>files = [], trace = []\<rparr> = (Inr ''Hello'', ?sa)"
    unfolding u l da by (rule 2)
  have i3: "try_subtitles ?wb (event_url ?ev) (tmpdir ?wb) (event_lang ?ev)
             \<lparr>files = [], trace = []\<rparr> = (Inr [], ?sb)"
    unfolding u l db by (rule 3)
  note A = captions_before_asr [OF 1 i2]
  note B = captions_before_asr [OF 1 i3]
  have "\<forall>tx. (Inr ''Hello'' :: fault + string) = Inr tx \<and> tx \<noteq> [] \<longrightarrow>
          handler ?wa ?ev =
            (Inr [(''transcript'', tx), (''method'', ''subtitles''), (''lang'', event_lang ?ev)],
             trace ?sa)"
    by (rule A [THEN conjunct2, THEN conjunct2, THEN conjunct2, THEN conjunct2, THEN conjunct1])
  then have 4: "handler ?wa ?ev =
      (Inr [(''transcript'', ''Hello''), (''method'', ''subtitles''), (''lang'', ''en'')], ?tr)"
    unfolding l by simp
  have a: "fst (download_audio ?wb (event_url ?ev) (tmpdir ?wb) ?sb) = Inr ''/tmp/tmpk3x9/audio.webm''"
    unfolding u db by code_simp
  have "asr_invoked (snd (handler ?wb ?ev)) \<longleftrightarrow>
          (Inr [] :: fault + string) = Inr [] \<and>
          (\<exists>a. fst (download_audio ?wb (event_url ?ev) (tmpdir ?wb) ?sb) = Inr a)"
    by (rule B [THEN conjunct2, THEN conjunct2, THEN conjunct2, THEN conjunct2,
                THEN conjunct2, THEN conjunct2])
  then have 5: "asr_invoked (snd (handler ?wb ?ev))" unfolding a by simp
  show ?thesis by (intro conjI) (fact 1 2 3 4 5)+
qed

text \<open>
  The claim as stated fails in one direction: without any caption file the recogniser is
  still not called when the audio download fails.
\<close>

theorem no_captions_no_asr:
  "fst (download_subtitles (scripted [] (Exited 1) [] (Inr [''Hello'']))
          ''https://youtu.be/x'' ''/tmp/tmpk3x9'' ''en'' \<lparr>files = [], trace = []\<rparr>) = None
   \<and> handler (scripted [] (Exited 1) [] (Inr [''Hello''])) (request ''https://youtu.be/x'' ''en'')
     = (Inl (CalledProcessError 1),
        [subs_call ''--write-subs'' ''https://youtu.be/x'' ''/tmp/tmpk3x9'' ''en'',
         subs_call ''--write-auto-subs'' ''https://youtu.be/x'' ''/tmp/tmpk3x9'' ''en'',
         audio_call ''https://youtu.be/x'' ''/tmp/tmpk3x9''])
   \<and> \<not> asr_invoked (snd (handler (scripted [] (Exited 1) [] (Inr [''Hello'']))
                              (request ''https://youtu.be/x'' ''en'')))"
  by code_simp

lemma handler_record_kind:
  assumes "fst (handler w event) = Inr r"
  shows "is_transcript r \<and> \<not> is_error r \<or> is_error r \<and> \<not> is_transcript r"
  using handler_result [OF assms]
proof (elim disjE exE conjE)
  assume "r = [(''error'', ''Missing input.youtubeUrl'')]"
  then show ?thesis by (simp add: is_transcript_def is_error_def)
next
  assume "r = [(''error'', ''ASR returned empty transcript'')]"
  then show ?thesis by (simp add: is_transcript_def is_error_def)
next
  fix tx
  assume "r = [(''transcript'', tx), (''method'', ''subtitles''), (''lang'', event_lang event)]"
  then show ?thesis by (simp add: is_transcript_def is_error_def)
next
  fix tx
  assume "r = [(''transcript'', tx), (''method'', ''asr''), (''lang'', event_lang event)]"
  then show ?thesis by (simp add: is_transcript_def is_error_def)
qed

lemma handler_fallback_outcome:
  assumes "event_url event \<noteq> []"
    and "try_subtitles w (event_url event) (tmpdir w) (event_lang event)
           \<lparr>files = [], trace = []\<rparr> = (Inr [], st1)"
    and "audio_step w (event_url event) (tmpdir w) (files st1) = (ex, fs)"
  shows "fst (handler w event) =
          (case ex of
             Exited n \<Rightarrow>
               if n \<noteq> 0 then Inl (CalledProcessError n)
               else if glob (tmpdir w) ''audio.'' [] fs = []
               then Inl (RuntimeError ''Audio download produced no file'')
               else (case whisper w (hd (glob (tmpdir w) ''audio.'' [] fs)) fs of
                       Inl e \<Rightarrow> Inl e
                     | Inr segments \<Rightarrow>
                         if clean_text (join_sp (filter (\<lambda>t. t \<noteq> []) segments)) = []
                         then Inr [(''error'', ''ASR returned empty transcript'')]
                         else Inr [(''transcript'',
                                     clean_text (join_sp (filter (\<lambda>t. t \<noteq> []) segments))),
                                   (''method'', ''asr''), (''lang'', event_lang event)])
           | TimedOut \<Rightarrow> Inl TimeoutExpired
           | NotStarted \<Rightarrow> Inl OSError)"
proof -
  let ?u = "event_url event" and ?d = "tmpdir w" and ?l = "event_lang event"
  have h: "fst (handler w event) = fst (asr_fallback w ?u ?d ?l st1)"
    using handler_nonblank [OF assms(1,2)] by simp
  have sf: "snd (audio_step w ?u ?d (files st1)) = fs" using assms(3) by simp
  have da: "fst (download_audio w ?u ?d st1) =
          (case ex of
             Exited n \<Rightarrow>
               if n = 0
               then (if glob ?d ''audio.'' [] fs = []
                     then Inl (RuntimeError ''Audio download produced no file'')
                     else Inr (hd (glob ?d ''audio.'' [] fs)))
               else Inl (CalledProcessError n)
           | TimedOut \<Rightarrow> Inl TimeoutExpired
           | NotStarted \<Rightarrow> Inl OSError)"
    using assms(3) by (simp add: download_audio_eq split: proc_exit.splits)
  show ?thesis
  proof (cases ex)
    case (Exited n)
    show ?thesis
    proof (cases "n = 0")
      case True
      show ?thesis
      proof (cases "glob ?d ''audio.'' [] fs = []")
        case empty: True
        have e: "fst (download_audio w ?u ?d st1) =
                   Inl (RuntimeError ''Audio download produced no file'')"
          unfolding da using Exited True empty by simp
        show ?thesis
          unfolding h asr_fallback_raises [OF e] using Exited True empty by simp
      next
        case some: False
        have a: "fst (download_audio w ?u ?d st1) = Inr (hd (glob ?d ''audio.'' [] fs))"
          unfolding da using Exited True some by simp
        show ?thesis
          unfolding h asr_fallback_transcribes [OF a] sf using Exited True some
          by (simp split: sum.splits)
      qed
    next
      case False
      have e: "fst (download_audio w ?u ?d st1) = Inl (CalledProcessError n)"
        unfolding da using Exited False by simp
      show ?thesis
        unfolding h asr_fallback_raises [OF e] using Exited False by simp
    qed
  next
    case TimedOut
    have e: "fst (download_audio w ?u ?d st1) = Inl TimeoutExpired"
      unfolding da using TimedOut by simp
    show ?thesis
      unfolding h asr_fallback_raises [OF e] using TimedOut by simp
  next
    case NotStarted
    have e: "fst (download_audio w ?u ?d st1) = Inl OSError"
      unfolding da using NotStarted by simp
    show ?thesis
      unfolding h asr_fallback_raises [OF e] using NotStarted by simp
  qed
qed

text \<open>
  Claim C1, as the code has it. Every call of the handler ends in exactly one way: it
  returns one record, which is a transcript result or an error record and never both, or
  an exception leaves it. A missing URL and an empty transcript of the recogniser are
  returned as error records. A failure of the audio download (non-zero exit status,
  timeout, program not started, no file left) and an exception of the recogniser are not
  caught: they leave the handler.
\<close>

theorem handler_outcome:
  "((\<exists>r. fst (handler w event) = Inr r
          \<and> (is_transcript r \<and> \<not> is_error r \<or> is_error r \<and> \<not> is_transcript r))
     \<or> (\<exists>e. fst (handler w event) = Inl e))
   \<and> (event_url event = [] \<longrightarrow>
        fst (handler w event) = Inr [(''error'', ''Missing input.youtubeUrl'')])
   \<and> (event_url event \<noteq> []
        \<and> try_subtitles w (event_url event) (tmpdir w) (event_lang event)
             \<lparr>files = [], trace = []\<rparr> = (Inr [], st1)
        \<and> audio_step w (event_url event) (tmpdir w) (files st1) = (ex, fs)
      \<longrightarrow> fst (handler w event) =
          (case ex of
             Exited n \<Rightarrow>
               if n \<noteq> 0 then Inl (CalledProcessError n)
               else if glob (tmpdir w) ''audio.'' [] fs = []
               then Inl (RuntimeError ''Audio download produced no file'')
               else (case whisper w (hd (glob (tmpdir w) ''audio.'' [] fs)) fs of
                       Inl e \<Rightarrow> Inl e
                     | Inr segments \<Rightarrow>
                         if clean_text (join_sp (filter (\<lambda>t. t \<noteq> []) segments)) = []
                         then Inr [(''error'', ''ASR returned empty transcript'')]
                         else Inr [(''transcript'',
                                     clean_text (join_sp (filter (\<lambda>t. t \<noteq> []) segments))),
                                   (''method'', ''asr''), (''lang'', event_lang event)])
           | TimedOut \<Rightarrow> Inl TimeoutExpired
           | NotStarted \<Rightarrow> Inl OSError))"
proof (intro conjI impI)
  show "(\<exists>r. fst (handler w event) = Inr r
          \<and> (is_transcript r \<and> \<not> is_error r \<or> is_error r \<and> \<not> is_transcript r))
     \<or> (\<exists>e. fst (handler w event) = Inl e)"
  proof (cases "fst (handler w event)")
    case (Inl e)
    then show ?thesis by (intro disjI2 exI)
  next
    case (Inr r)
    have "fst (handler w event) = Inr r
          \<and> (is_transcript r \<and> \<not> is_error r \<or> is_error r \<and> \<not> is_transcript r)"
      using Inr handler_record_kind [OF Inr] by (rule conjI)
    then have "\<exists>r. fst (handler w event) = Inr r
          \<and> (is_transcript r \<and> \<not> is_error r \<or> is_error r \<and> \<not> is_transcript r)"
      by (rule exI)
    then show ?thesis by (rule disjI1)
  qed
next
  assume "event_url event = []"
  then show "fst (handler w event) = Inr [(''error'', ''Missing input.youtubeUrl'')]"
    by (simp add: handler_blank)
next
  assume a: "event_url event \<noteq> []
        \<and> try_subtitles w (event_url event) (tmpdir w) (event_lang event)
             \<lparr>files = [], trace = []\<rparr> = (Inr [], st1)
        \<and> audio_step w (event_url event) (tmpdir w) (files st1) = (ex, fs)"
  show "fst (handler w event) =
          (case ex of
             Exited n \<Rightarrow>
               if n \<noteq> 0 then Inl (CalledProcessError n)
               else if glob (tmpdir w) ''audio.'' [] fs = []
               then Inl (RuntimeError ''Audio download produced no file'')
               else (case whisper w (hd (glob (tmpdir w) ''audio.'' [] fs)) fs of
                       Inl e \<Rightarrow> Inl e
                     | Inr segments \<Rightarrow>
                         if clean_text (join_sp (filter (\<lambda>t. t \<noteq> []) segments)) = []
                         then Inr [(''error'', ''ASR returned empty transcript'')]
                         else Inr [(''transcript'',
                                     clean_text (join_sp (filter (\<lambda>t. t \<noteq> []) segments))),
                                   (''method'', ''asr''), (''lang'', event_lang event)])
           | TimedOut \<Rightarrow> Inl TimeoutExpired
           | NotStarted \<Rightarrow> Inl OSError)"
    by (rule handler_fallback_outcome [OF a [THEN conjunct1] a [THEN conjunct2, THEN conjunct1]
          a [THEN conjunct2, THEN conjunct2]])
qed

theorem handler_outcome_witness:
  "event_url (request ''https://youtu.be/x'' ''en'') \<noteq> []
   \<and> try_subtitles (scripted [] (Exited 0) [(''audio.m4a'', [])] (Inr [[], '' '']))
        ''https://youtu.be/x'' ''/tmp/tmpk3x9'' ''en'' \<lparr>files = [], trace = []\<rparr>
      = (Inr [], \<lparr>files = [],
                  trace = [subs_call ''--write-subs'' ''https://youtu.be/x'' ''/tmp/tmpk3x9'' ''en'',
                           subs_call ''--write-auto-subs'' ''https://youtu.be/x'' ''/tmp/tmpk3x9'' ''en'']\<rparr>)
   \<and> audio_step (scripted [] (Exited 0) [(''audio.m4a'', [])] (Inr [[], '' '']))
        ''https://youtu.be/x'' ''/tmp/tmpk3x9'' [] = (Exited 0, [(''audio.m4a'', [])])
   \<and> fst (handler (scripted [] (Exited 0) [(''audio.m4a'', [])] (Inr [[], '' '']))
             (request ''https://youtu.be/x'' ''en''))
      = Inr [(''error'', ''ASR returned empty transcript'')]
   \<and> is_error [(''error'', ''ASR returned empty transcript'')]"
proof -
  let ?w = "scripted [] (Exited 0) [(''audio.m4a'', [])] (Inr [[], '' ''])"
  let ?ev = "request ''https://youtu.be/x'' ''en''"
  let ?st1 = "\<lparr>files = [],
                  trace = [subs_call ''--write-subs'' ''https://youtu.be/x'' ''/tmp/tmpk3x9'' ''en'',
                           subs_call ''--write-auto-subs'' ''https://youtu.be/x'' ''/tmp/tmpk3x9'' ''en'']\<rparr>"
  have u: "event_url ?ev = ''https://youtu.be/x''" by code_simp
  have l: "event_lang ?ev = ''en''" by code_simp
  have d: "tmpdir ?w = ''/tmp/tmpk3x9''" by (simp add: scripted_def)
  have 1: "event_url ?ev \<noteq> []" unfolding u by simp
  have 2: "try_subtitles ?w ''https://youtu.be/x'' ''/tmp/tmpk3x9'' ''en''
             \<lparr>files = [], trace = []\<rparr> = (Inr [], ?st1)"
    by code_simp
  have 3: "audio_step ?w ''https://youtu.be/x'' ''/tmp/tmpk3x9'' [] = (Exited 0, [(''audio.m4a'', [])])"
    by code_simp
  have i2: "try_subtitles ?w (event_url ?ev) (tmpdir ?w) (event_lang ?ev)
             \<lparr>files = [], trace = []\<rparr> = (Inr [], ?st1)"
    unfolding u l d by (rule 2)
  have i3: "audio_step ?w (event_url ?ev) (tmpdir ?w) (files ?st1) = (Exited 0, [(''audio.m4a'', [])])"
    unfolding u d using 3 by simp
  have v: "(case Exited 0 of
             Exited n \<Rightarrow>
               if n \<noteq> 0 then Inl (CalledProcessError n)
               else if glob (tmpdir ?w) ''audio.'' [] [(''audio.m4a'', [])] = []
               then Inl (RuntimeError ''Audio download produced no file'')
               else (case whisper ?w (hd (glob (tmpdir ?w) ''audio.'' [] [(''audio.m4a'', [])])) [(''audio.m4a'', [])] of
                       Inl e \<Rightarrow> Inl e
                     | Inr segments \<Rightarrow>
                         if clean_text (join_sp (filter (\<lambda>t. t \<noteq> []) segments)) = []
                         then Inr [(''error'', ''ASR returned empty transcript'')]
                         else Inr [(''transcript'',
                                     clean_text (join_sp (filter (\<lambda>t. t \<noteq> []) segments))),
                                   (''method'', ''asr''), (''lang'', event_lang ?ev)])
           | TimedOut \<Rightarrow> Inl TimeoutExpired
           | NotStarted \<Rightarrow> Inl OSError) = Inr [(''error'', ''ASR returned empty transcript'')]"
    by code_simp
  have 4: "fst (handler ?w ?ev) = Inr [(''error'', ''ASR returned empty transcript'')]"
    using mp [OF handler_outcome [THEN conjunct2, THEN conjunct2] conjI [OF 1 conjI [OF i2 i3]]]
    unfolding v .
  have 5: "is_error [(''error'', ''ASR returned empty transcript'')]"
    by (simp add: is_error_def)
  show ?thesis by (intro conjI) (fact 1 2 3 4 5)+
qed

text \<open>
  The claim as stated fails: a timeout of the audio download leaves the handler as an
  exception; no record is returned.
\<close>

theorem handler_audio_timeout_raises:
  "fst (handler (scripted [] TimedOut [] (Inr [''Hello''])) (request ''https://youtu.be/x'' ''en''))
   = Inl TimeoutExpired"
  by code_simp

end
